theory Spec2Isabelle
  imports Main "HOL-Library.Word"
begin

unbundle bit_operations_syntax

section \<open>Machine model of the vibration unit (PIC16F18313 firmware)\<close>

text \<open>
  The firmware is a set of C globals, special function registers and three routines that
  run to completion: the interrupt handler \<open>ISR\<close> (serial receive, Timer1 sine tick,
  Timer2 window tick), the protocol routine \<open>UART_processing\<close> it calls, and
  \<open>square_processing\<close>, called from the main loop. The model is a record of the globals,
  a store for the special function registers, and a log of every register write in program
  order, so that statements about the order of hardware effects can be read off the log.
\<close>

type_synonym u8 = "8 word"
type_synonym u16 = "16 word"
type_synonym u32 = "32 word"

text \<open>
  The special function registers and register bit fields the routines touch. A bit field
  (\<open>T1CONbits.TMR1ON\<close>, \<open>LATAbits.LATA0\<close>, \<open>CWG1CON0bits.EN\<close>, ...) is a
  location of its own holding 0 or 1. \<open>RC1REG\<close>, \<open>OERR\<close>, \<open>FERR\<close>, \<open>RCIF\<close>,
  \<open>TMR1IF\<close> and \<open>TMR2IF\<close> are set by the hardware and read by the handler.
\<close>

datatype reg =
    RA0PPS | RA1PPS | LATA0 | LATA1 | TRISA0 | TRISA1
  | CCPR1H | CCPR1L | CCP1CON
  | PR2 | TMR2 | T2CKPS | TMR2ON | TMR2IF | TMR2IE
  | TMR1H | TMR1L | T1CKPS | TMR1ON | TMR1IF | TMR1IE
  | CWG1EN | POLA | POLB
  | RC1REG | OERR | FERR | CREN | RCIF | TX1REG

type_synonym event = "reg \<times> u8"

record mcu =
  regs :: "reg \<Rightarrow> u8"
  trace :: "event list"
  trmt :: "bool list"
  buffer :: u8
  state :: u8
  wave_mode :: u8
  duty5_raw :: u8
  duty_pct :: u8
  freq_index :: u8
  uart_led_flag :: u8
  phase_idx :: u8
  last_sign :: int
  t1_reload :: u16
  scale :: u16
  index200 :: u8
  cwg_flag :: u8
  duty_flag :: u8
  square_tick :: u8

text \<open>A register write updates the store and is appended to the log.\<close>

definition wr :: "reg \<Rightarrow> u8 \<Rightarrow> mcu \<Rightarrow> mcu" where
  "wr r v s = s\<lparr>regs := (regs s)(r := v), trace := trace s @ [(r, v)]\<rparr>"

text \<open>Statements executed one after the other.\<close>

definition run :: "(mcu \<Rightarrow> mcu) list \<Rightarrow> mcu \<Rightarrow> mcu" where
  "run fs s = fold (\<lambda>f. f) fs s"


subsection \<open>PWM duty register\<close>

text \<open>
  \<open>set_pwm10\<close>: the 10-bit duty is split over \<open>CCPR1H\<close> (bits 9..2) and the top two
  bits of \<open>CCPR1L\<close> (bits 1..0).
\<close>

definition set_pwm10 :: "u16 \<Rightarrow> mcu \<Rightarrow> mcu" where
  "set_pwm10 dc10 =
     run [wr CCPR1H (ucast (drop_bit 2 dc10)),
          wr CCPR1L (ucast (push_bit 6 (dc10 AND 3)))]"

text \<open>The carrier's full scale, \<open>top = 4 * (PR2 + 1) - 1\<close>, computed in 16 bits.\<close>

definition pwm_top :: "mcu \<Rightarrow> u16" where
  "pwm_top s = 4 * (ucast (regs s PR2) + 1) - 1"

subsection \<open>True-sine engine (Timer1 and a signed 64-point table)\<close>

definition SINE_LEN :: u8 where
  "SINE_LEN = 64"

definition CCP1_PPS_CODE :: u8 where
  "CCP1_PPS_CODE = 0x0C"

definition MIN_DRIVE_TKS :: u16 where
  "MIN_DRIVE_TKS = 2"

text \<open>The table holds \<open>int8_t\<close> values between -127 and 127; they are kept as integers.\<close>

definition SINE64_8 :: "int list" where
  "SINE64_8 =
    [   0,  12,  25,  37,  49,  60,  71,  81,
       90,  99, 106, 113, 118, 122, 125, 127,
      127, 127, 125, 122, 118, 113, 106,  99,
       90,  81,  71,  60,  49,  37,  25,  12,
        0, -12, -25, -37, -49, -60, -71, -81,
      -90, -99,-106,-113,-118,-122,-125,-127,
     -127,-127,-125,-122,-118,-113,-106, -99,
      -90, -81, -71, -60, -49, -37, -25, -12]"

definition T1_RELOAD :: "u16 list" where
  "T1_RELOAD =
    [65536 - 127, 65536 - 108, 65536 - 92, 65536 - 78,
     65536 - 66, 65536 - 57, 65536 - 49, 65536 - 41]"

text \<open>\<open>coast_both\<close>: detach the carrier from both pins and drive both latches low.\<close>

definition coast_events :: "event list" where
  "coast_events = [(RA1PPS, 0), (LATA1, 0), (RA0PPS, 0), (LATA0, 0)]"

definition coast_both :: "mcu \<Rightarrow> mcu" where
  "coast_both = run [wr RA1PPS 0, wr LATA1 0, wr RA0PPS 0, wr LATA0 0]"

text \<open>
  \<open>route_halfcycle\<close>: positive half-cycle, carrier on RA0 and RA1 high; otherwise carrier
  on RA1 and RA0 high.
\<close>

definition route_events :: "int \<Rightarrow> event list" where
  "route_events sign =
     (if sign > 0
      then [(RA0PPS, CCP1_PPS_CODE), (RA1PPS, 0), (LATA1, 1), (LATA0, 0)]
      else [(RA1PPS, CCP1_PPS_CODE), (RA0PPS, 0), (LATA0, 1), (LATA1, 0)])"

definition route_halfcycle :: "int \<Rightarrow> mcu \<Rightarrow> mcu" where
  "route_halfcycle sign =
     (if sign > 0
      then run [wr RA0PPS CCP1_PPS_CODE, wr RA1PPS 0, wr LATA1 1, wr LATA0 0]
      else run [wr RA1PPS CCP1_PPS_CODE, wr RA0PPS 0, wr LATA0 1, wr LATA1 0])"

definition t1_apply_reload :: "u8 \<Rightarrow> mcu \<Rightarrow> mcu" where
  "t1_apply_reload fidx s =
     (let r = T1_RELOAD ! unat (fidx AND 7) in
      run [wr TMR1ON 0,
           wr TMR1H (ucast (drop_bit 8 r)),
           wr TMR1L (ucast (r AND 0xFF)),
           wr TMR1IF 0,
           wr TMR1ON 1] (s\<lparr>t1_reload := r\<rparr>))"

text \<open>
  \<open>lra_set_amp\<close>: the amplitude in percent, clamped to 100, scaled to the carrier's full
  scale with rounding, in 32 bits; a zero scale coasts the bridge at once.
\<close>

definition amp_scale :: "u16 \<Rightarrow> u8 \<Rightarrow> u16" where
  "amp_scale tp pct =
     ucast (((ucast tp :: u32) * ucast (if pct > 100 then 100 else pct) + 50) div 100)"

definition lra_set_amp :: "u8 \<Rightarrow> mcu \<Rightarrow> mcu" where
  "lra_set_amp pct s =
     (let s1 = s\<lparr>scale := amp_scale (pwm_top s) pct\<rparr> in
      if scale s1 = 0 then run [coast_both, set_pwm10 0] s1 else s1)"

subsection \<open>Square engine (CWG and a 0..199 window)\<close>

definition PR_val :: "u8 list" where
  "PR_val = [85, 72, 60, 52, 44, 37, 32, 27]"

text \<open>
  The window predicate of \<open>square_processing\<close>. The sum \<open>100 + duty_pct\<close> is cast to
  \<open>uint8_t\<close> in the source, so it is an 8-bit addition here.
\<close>

definition square_on :: "u8 \<Rightarrow> u8 \<Rightarrow> bool" where
  "square_on idx pct \<longleftrightarrow> idx < pct \<or> (idx \<ge> 100 \<and> idx < 100 + pct)"

definition square_processing :: "mcu \<Rightarrow> mcu" where
  "square_processing s =
     (if square_on (index200 s) (duty_pct s) then
        (let half = (index200 s \<ge> 100);
             s1 = (if cwg_flag s = 0 \<or> last_sign s \<noteq> (if half then -1 else 1)
                   then run [wr CWG1EN 0,
                             (if \<not> half
                              then run [wr POLA 0, wr POLB 0, (\<lambda>t. t\<lparr>last_sign := 1\<rparr>)]
                              else run [wr POLA 1, wr POLB 1, (\<lambda>t. t\<lparr>last_sign := -1\<rparr>)]),
                             wr CWG1EN 1,
                             (\<lambda>t. t\<lparr>cwg_flag := 1\<rparr>)] s
                   else s)
         in if duty_flag s1 = 0
            then run [set_pwm10 (pwm_top s1), (\<lambda>t. t\<lparr>duty_flag := 1\<rparr>)] s1
            else s1)
      else
        (let s1 = (if cwg_flag s = 1
                   then run [wr CWG1EN 0, wr TRISA0 1, wr TRISA1 1,
                             (\<lambda>t. t\<lparr>cwg_flag := 0\<rparr>)] s
                   else s)
         in if duty_flag s1 = 1
            then run [set_pwm10 0, (\<lambda>t. t\<lparr>duty_flag := 0\<rparr>)] s1
            else s1))"


subsection \<open>Serial protocol\<close>

definition make_addr_byte :: "u8 \<Rightarrow> u8 \<Rightarrow> u8" where
  "make_addr_byte start addr6 = push_bit 1 (addr6 AND 0x3F) OR (start AND 1)"

text \<open>
  \<open>UART_Write\<close> polls the transmitter's \<open>TRMT\<close> flag until it reads 1, then loads
  \<open>TX1REG\<close>. The flag is set by the hardware: the field \<open>trmt\<close> of the state is the
  sequence of values the coming polls will read. When no poll ever reads 1 the loop does
  not end, and the routine returns nothing.
\<close>

fun wait_TRMT :: "bool list \<Rightarrow> bool list option" where
  "wait_TRMT [] = None"
| "wait_TRMT (t # ts) = (if t then Some ts else wait_TRMT ts)"

definition UART_Write :: "u8 \<Rightarrow> mcu \<Rightarrow> mcu option" where
  "UART_Write d s =
     (case wait_TRMT (trmt s) of
        None \<Rightarrow> None
      | Some ts \<Rightarrow> Some (wr TX1REG d (s\<lparr>trmt := ts\<rparr>)))"

text \<open>The duty in percent from the 5-bit code: \<open>(duty5_raw * 100) / 32\<close> in 16 bits.\<close>

definition duty_pct_of :: "u8 \<Rightarrow> u8" where
  "duty_pct_of d5 = ucast (((ucast d5 :: u16) * 100) div 32)"

text \<open>The STOP branch of \<open>UART_processing\<close> (address 0, start flag 0).\<close>

definition UART_stop :: "mcu \<Rightarrow> mcu" where
  "UART_stop =
     run [wr TMR1ON 0, wr TMR1IE 0,
          coast_both, set_pwm10 0,
          wr TMR2ON 0, wr TMR2IE 0,
          wr RA1PPS 0b01000, wr RA0PPS 0b01001, wr CWG1EN 1,
          (\<lambda>t. t\<lparr>duty_pct := 0\<rparr>), (\<lambda>t. t\<lparr>cwg_flag := 0\<rparr>),
          (\<lambda>t. t\<lparr>duty_flag := 0\<rparr>), (\<lambda>t. t\<lparr>square_tick := 0\<rparr>),
          (\<lambda>t. t\<lparr>uart_led_flag := 1\<rparr>),
          (\<lambda>t. t\<lparr>duty5_raw := 0\<rparr>),
          (\<lambda>t. t\<lparr>state := 0\<rparr>)]"

text \<open>
  The true-sine branch of the commit. \<open>T1CON = 0\<close> clears the whole register: it is
  written here as the two bit fields of \<open>T1CON\<close> the model keeps.
\<close>

definition UART_start_sine :: "mcu \<Rightarrow> mcu" where
  "UART_start_sine =
     run [wr TMR2ON 0, wr T2CKPS 0, wr PR2 199, set_pwm10 0,
          wr TMR2 0, wr TMR2IF 0, wr TMR2ON 1,
          wr CCP1CON 0b10011111,
          wr CWG1EN 0, coast_both,
          wr TMR1ON 0, wr T1CKPS 0,
          wr T1CKPS 0b11,
          wr TMR1IF 0, wr TMR1IE 1,
          (\<lambda>t. t\<lparr>phase_idx := 0\<rparr>), (\<lambda>t. t\<lparr>last_sign := 0\<rparr>),
          (\<lambda>t. lra_set_amp (duty_pct t) t),
          (\<lambda>t. t1_apply_reload (freq_index t) t)]"

text \<open>The square branch of the commit.\<close>

definition UART_start_square :: "mcu \<Rightarrow> mcu" where
  "UART_start_square =
     run [wr TMR1ON 0, wr TMR1IE 0, coast_both,
          wr CCP1CON 0b10011111,
          wr RA1PPS 0b01000, wr RA0PPS 0b01001, wr CWG1EN 1,
          wr TMR2ON 0, wr T2CKPS 0b01,
          (\<lambda>t. wr PR2 (PR_val ! unat (freq_index t)) t),
          wr TMR2 0, wr TMR2IF 0, wr TMR2ON 1, wr TMR2IE 1,
          (\<lambda>t. t\<lparr>index200 := 0\<rparr>), (\<lambda>t. t\<lparr>cwg_flag := 0\<rparr>),
          (\<lambda>t. t\<lparr>duty_flag := 0\<rparr>), (\<lambda>t. t\<lparr>square_tick := 0\<rparr>),
          (\<lambda>t. t\<lparr>last_sign := 0\<rparr>)]"

text \<open>
  \<open>UART_processing\<close> works on the byte in \<open>buffer\<close>. An address byte (bit 7 clear)
  with a non-zero address is forwarded with the address decremented; with address 0 it is
  a STOP or opens a START. A data byte (bit 7 set) is relayed when \<open>state\<close> is 0, is the
  duty code when \<open>state\<close> is 1, and otherwise is the wave/frequency byte that commits the
  command.
\<close>

definition UART_processing :: "mcu \<Rightarrow> mcu option" where
  "UART_processing s =
     (if drop_bit 7 (buffer s) = 0 then
        (let addr = drop_bit 1 (buffer s) AND 0x3F;
             start = buffer s AND 1
         in if addr \<noteq> 0 then
              map_option (\<lambda>t. t\<lparr>state := 0\<rparr>) (UART_Write (make_addr_byte start (addr - 1)) s)
            else if start = 0 then Some (UART_stop s)
            else Some (s\<lparr>state := 1\<rparr>))
      else
        (if state s = 0 then UART_Write (buffer s) s
         else if state s = 1 then
           Some (s\<lparr>duty5_raw := buffer s AND 0x1F, state := 2\<rparr>)
         else
           (let d2 = buffer s AND 0x7F;
                s1 = s\<lparr>wave_mode := drop_bit 3 d2 AND 1, freq_index := d2 AND 7\<rparr>;
                s2 = s1\<lparr>duty_pct := duty_pct_of (duty5_raw s1)\<rparr>;
                s3 = s2\<lparr>uart_led_flag := 1\<rparr>;
                s4 = (if wave_mode s3 \<noteq> 0 then UART_start_sine s3 else UART_start_square s3)
            in Some (s4\<lparr>state := 0\<rparr>))))"

text \<open>
  The node is in a transaction addressed to it exactly while \<open>state\<close> is not 0: the
  source keeps no separate flag, and a data byte is consumed rather than relayed exactly
  then.
\<close>

definition addressed :: "mcu \<Rightarrow> bool" where
  "addressed s \<longleftrightarrow> state s \<noteq> 0"

subsection \<open>Interrupt handler\<close>

text \<open>The Timer1 branch: one tick of the true-sine engine.\<close>

definition sine_sample :: "u8 \<Rightarrow> int" where
  "sine_sample i = SINE64_8 ! unat i"

definition next_phase :: "u8 \<Rightarrow> u8" where
  "next_phase p = (let i = p + 1 in if i \<ge> SINE_LEN then 0 else i)"

definition tick_sign :: "mcu \<Rightarrow> int" where
  "tick_sign s =
     (let s8 = sine_sample (next_phase (phase_idx s))
      in if s8 > 0 then 1 else if s8 < 0 then -1 else last_sign s)"

definition duty_fwd_of :: "u16 \<Rightarrow> int \<Rightarrow> u16" where
  "duty_fwd_of sc s8 =
     (let mag = (word_of_int (if s8 \<ge> 0 then s8 else - s8) :: u16);
          tmp = (ucast sc :: u32) * ucast mag
      in ucast (drop_bit 7 (tmp + 64)))"

definition TMR1_tick :: "mcu \<Rightarrow> mcu" where
  "TMR1_tick s =
     (let s0 = wr TMR1IF 0 s in
      if wave_mode s0 = 0 then s0
      else
        (let s1 = run [wr TMR1H (ucast (drop_bit 8 (t1_reload s0))),
                       wr TMR1L (ucast (t1_reload s0 AND 0xFF))] s0;
             i = next_phase (phase_idx s1);
             s2 = s1\<lparr>phase_idx := i\<rparr>;
             s8 = sine_sample i;
             sgn = (if s8 > 0 then 1 else if s8 < 0 then -1 else last_sign s2)
         in if scale s2 = 0
            then run [coast_both, set_pwm10 0, (\<lambda>t. t\<lparr>last_sign := sgn\<rparr>)] s2
            else
              (let s3 = (if sgn \<noteq> last_sign s2
                         then run [coast_both, route_halfcycle sgn,
                                   (\<lambda>t. t\<lparr>last_sign := sgn\<rparr>)] s2
                         else s2);
                   duty_fwd = duty_fwd_of (scale s3) s8;
                   tp = pwm_top s3;
                   duty_fwd' = (if duty_fwd \<ge> tp then tp else duty_fwd)
               in set_pwm10 (tp - duty_fwd') s3)))"

text \<open>The Timer2 branch: the window position advances while the square wave is selected.\<close>

definition TMR2_tick :: "mcu \<Rightarrow> mcu" where
  "TMR2_tick s =
     (let s0 = wr TMR2IF 0 s in
      if wave_mode s0 = 0 then
        (let s1 = s0\<lparr>index200 := index200 s0 + 1\<rparr>;
             s2 = (if index200 s1 = 200 then s1\<lparr>index200 := 0\<rparr> else s1)
         in s2\<lparr>square_tick := 1\<rparr>)
      else s0)"

text \<open>
  The receive branch: an overrun resets the receiver (\<open>CREN\<close> off and on); a framing
  error reads the byte into a local and returns; otherwise the byte goes to \<open>buffer\<close>
  and \<open>UART_processing\<close> runs.
\<close>

definition RX_branch :: "mcu \<Rightarrow> mcu option" where
  "RX_branch s =
     (let s1 = (if regs s OERR \<noteq> 0 then run [wr CREN 0, wr CREN 1] s else s)
      in if regs s1 FERR \<noteq> 0 then Some (wr RCIF 0 s1)
         else UART_processing ((wr RCIF 0 s1)\<lparr>buffer := regs s1 RC1REG\<rparr>))"

definition ISR :: "mcu \<Rightarrow> mcu option" where
  "ISR s =
     (if regs s RCIF \<noteq> 0 then RX_branch s
      else if regs s TMR1IF \<noteq> 0 then Some (TMR1_tick s)
      else if regs s TMR2IF \<noteq> 0 then Some (TMR2_tick s)
      else Some s)"

subsection \<open>The duty table of the table-driven variant\<close>

text \<open>
  \<open>Dev/Gabriel/Vibration_Unit.c\<close> maps the 5-bit duty index through a table instead of
  the formula: \<open>duty_index = (buffer & DUTY_MASK) >> 2\<close>,
  \<open>duty_cycle = duty_cycle_lut_5bit[duty_index]\<close>.
\<close>

definition duty_cycle_lut_5bit :: "u8 list" where
  "duty_cycle_lut_5bit =
    [0, 0, 0, 1, 2, 3, 4, 5, 7, 8, 10, 13, 15, 18, 20, 23,
     27, 30, 34, 38, 42, 46, 50, 55, 60, 65, 70, 76, 82, 88, 94, 99]"

definition DUTY_MASK :: u8 where
  "DUTY_MASK = 0x7C"

definition duty_index_of :: "u8 \<Rightarrow> u8" where
  "duty_index_of b = drop_bit 2 (b AND DUTY_MASK)"

definition lut_duty_cycle :: "u8 \<Rightarrow> u8" where
  "lut_duty_cycle idx = duty_cycle_lut_5bit ! unat idx"

subsection \<open>Observations used in the statements\<close>

text \<open>The register writes a routine added to the log.\<close>

definition new_events :: "mcu \<Rightarrow> mcu \<Rightarrow> event list" where
  "new_events s s' = drop (length (trace s)) (trace s')"

text \<open>The 200 values the window position \<open>index200\<close> runs through.\<close>

definition window_positions :: "u8 list" where
  "window_positions = map of_nat [0..<200]"

text \<open>An idle node: the C initialisers of the globals, carrier period 199, receiver on.\<close>

definition idle_node :: mcu where
  "idle_node =
     \<lparr>regs = (\<lambda>_. 0)(PR2 := 199, CREN := 1), trace = [], trmt = [True],
      buffer = 0, state = 0, wave_mode = 1, duty5_raw = 0, duty_pct = 0, freq_index = 3,
      uart_led_flag = 0, phase_idx = 0, last_sign = 0, t1_reload = 0, scale = 0,
      index200 = 0, cwg_flag = 0, duty_flag = 0, square_tick = 0\<rparr>"

text \<open>
  The bridge pins as the sine engine drives them: the two PPS selectors and the two
  latches. A write to one of them is a pin write; a write to \<open>CCPR1H\<close> or \<open>CCPR1L\<close>
  is a duty write.
\<close>

definition pin_write :: "event \<Rightarrow> bool" where
  "pin_write e \<longleftrightarrow> fst e = RA0PPS \<or> fst e = RA1PPS \<or> fst e = LATA0 \<or> fst e = LATA1"

definition duty_write :: "event \<Rightarrow> bool" where
  "duty_write e \<longleftrightarrow> fst e = CCPR1H \<or> fst e = CCPR1L"

type_synonym pins = "u8 \<times> u8 \<times> u8 \<times> u8"

definition pins_of :: "mcu \<Rightarrow> pins" where
  "pins_of s = (regs s RA0PPS, regs s RA1PPS, regs s LATA0, regs s LATA1)"

fun pin_step :: "pins \<Rightarrow> event \<Rightarrow> pins" where
  "pin_step (a0, a1, l0, l1) (r, v) =
     (if r = RA0PPS then (v, a1, l0, l1)
      else if r = RA1PPS then (a0, v, l0, l1)
      else if r = LATA0 then (a0, a1, v, l1)
      else if r = LATA1 then (a0, a1, l0, v)
      else (a0, a1, l0, l1))"

text \<open>The state of the pins \<open>coast_both\<close> leaves: carrier detached, both latches low.\<close>

definition coasted :: "pins \<Rightarrow> bool" where
  "coasted p \<longleftrightarrow> p = (0, 0, 0, 0)"

text \<open>
  Break before make, read off a log replayed from a given state of the pins: a peripheral
  output is attached to a pin (a non-zero PPS selector is written) only when the pins are
  in the coast state.
\<close>

fun break_before_make :: "pins \<Rightarrow> event list \<Rightarrow> bool" where
  "break_before_make p [] = True"
| "break_before_make p (e # es) =
     (((fst e = RA0PPS \<or> fst e = RA1PPS) \<and> snd e \<noteq> 0 \<longrightarrow> coasted p)
      \<and> break_before_make (pin_step p e) es)"

text \<open>A node with the sine engine armed at full wire amplitude (duty code 31).\<close>

definition sine_armed :: mcu where
  "sine_armed =
     idle_node\<lparr>regs := (regs idle_node)(TMR1ON := 1, TMR1IE := 1, TMR2ON := 1, T1CKPS := 3,
                                          CCP1CON := 0x9F, TMR1H := 0xFF, TMR1L := 0xB2,
                                          RC1REG := 0x8B),
               buffer := 0x8B, wave_mode := 1, duty5_raw := 31, duty_pct := 96, freq_index := 3,
               uart_led_flag := 1, t1_reload := 65536 - 78, scale := 767\<rparr>"

text \<open>
  The 10-bit value held by the duty register pair, the inverse of the split made by
  \<open>set_pwm10\<close>.
\<close>

definition duty_register :: "mcu \<Rightarrow> u16" where
  "duty_register s =
     push_bit 2 (ucast (regs s CCPR1H)) OR drop_bit 6 (ucast (regs s CCPR1L))"

text \<open>
  What the hardware does before it raises an interrupt: a received byte is placed in
  \<open>RC1REG\<close> with \<open>RCIF\<close> set; a Timer1 or Timer2 overflow sets its flag. These are not
  writes of the firmware and are not logged.
\<close>

definition rx_byte :: "u8 \<Rightarrow> mcu \<Rightarrow> mcu" where
  "rx_byte b s = s\<lparr>regs := (regs s)(RC1REG := b, RCIF := 1)\<rparr>"

definition timer1_overflow :: "mcu \<Rightarrow> mcu" where
  "timer1_overflow s = s\<lparr>regs := (regs s)(TMR1IF := 1)\<rparr>"

definition timer2_overflow :: "mcu \<Rightarrow> mcu" where
  "timer2_overflow s = s\<lparr>regs := (regs s)(TMR2IF := 1)\<rparr>"

text \<open>The handler run on a sequence of interrupt causes, each prepared by the hardware.\<close>

fun isr_run :: "(mcu \<Rightarrow> mcu) list \<Rightarrow> mcu \<Rightarrow> mcu option" where
  "isr_run [] s = Some s"
| "isr_run (hw # hws) s = (case ISR (hw s) of None \<Rightarrow> None | Some s' \<Rightarrow> isr_run hws s')"

text \<open>A byte sent downstream is a write to \<open>TX1REG\<close>.\<close>

definition tx_write :: "event \<Rightarrow> bool" where
  "tx_write e \<longleftrightarrow> fst e = TX1REG"

text \<open>The first list occurs in the second, in this order, possibly with gaps.\<close>

fun in_order :: "event list \<Rightarrow> event list \<Rightarrow> bool" where
  "in_order [] tr = True"
| "in_order (e # es) [] = False"
| "in_order (e # es) (t # tr) = (if e = t then in_order es tr else in_order (e # es) tr)"

text \<open>The register writes of the STOP branch, in program order.\<close>

definition stop_events :: "event list" where
  "stop_events =
     [(TMR1ON, 0), (TMR1IE, 0)] @ coast_events @ [(CCPR1H, 0), (CCPR1L, 0)]
     @ [(TMR2ON, 0), (TMR2IE, 0)] @ [(RA1PPS, 8), (RA0PPS, 9), (CWG1EN, 1)]"

text \<open>
  The order of effects as the specification lists them: sine timer and its interrupt off,
  square interrupt off, then coast and zero duty.
\<close>

definition specified_stop_order :: "event list" where
  "specified_stop_order =
     [(TMR1ON, 0), (TMR1IE, 0)] @ [(TMR2IE, 0)] @ coast_events @ [(CCPR1H, 0), (CCPR1L, 0)]"

text \<open>
  What a STOP is meant to settle: the command state, the duty register, the pins and
  latches of the two legs, the run and interrupt-enable bits of both timers, the CWG
  enable and the latches of the square engine.
\<close>

definition stop_view ::
    "mcu \<Rightarrow> (u8 \<times> u8 \<times> u8 \<times> bool) \<times> u16 \<times> pins \<times> u8 list \<times> u8 list" where
  "stop_view s =
     ((duty_pct s, duty5_raw s, state s, addressed s),
      duty_register s,
      pins_of s,
      map (regs s) [TMR1ON, TMR1IE, TMR2ON, TMR2IE, CWG1EN],
      [cwg_flag s, duty_flag s, square_tick s])"

text \<open>
  A node with the square engine armed (duty code 31, frequency index 3) in an ON window of
  the second half of the cycle, after \<open>square_processing\<close> has latched the inverted
  polarity.
\<close>

definition square_armed :: mcu where
  "square_armed =
     idle_node\<lparr>regs := (regs idle_node)(RA1PPS := 8, RA0PPS := 9, CWG1EN := 1, POLA := 1,
                                          POLB := 1, TRISA0 := 1, TRISA1 := 1,
                                          T2CKPS := 1, PR2 := 52, TMR2ON := 1,
                                          TMR2IE := 1, CCP1CON := 0x9F,
                                          CCPR1H := 52, CCPR1L := 0xC0, RC1REG := 0x83),
               buffer := 0x83, wave_mode := 0, duty5_raw := 31, duty_pct := 96, freq_index := 3,
               uart_led_flag := 1, last_sign := -1, index200 := 150,
               cwg_flag := 1, duty_flag := 1\<rparr>"

text \<open>The window positions seen after each of \<open>n\<close> consecutive Timer2 ticks.\<close>

fun tick_positions :: "nat \<Rightarrow> mcu \<Rightarrow> u8 list" where
  "tick_positions 0 s = []"
| "tick_positions (Suc n) s = index200 (TMR2_tick s) # tick_positions n (TMR2_tick s)"

text \<open>Reading a register of a state, with the register first.\<close>

definition rd :: "reg \<Rightarrow> mcu \<Rightarrow> u8" where
  "rd r s = regs s r"

text \<open>
  Concrete runs of the handler: a sine START with duty code 1 followed by the first Timer1
  tick; a START for this node followed by an address byte for the next node; a STOP
  received by a node with the sine engine armed, by an idle node, and by a node with the
  square engine armed.
\<close>

definition sine_code1_first_tick :: "mcu option" where
  "sine_code1_first_tick =
     isr_run [rx_byte 0x01, rx_byte 0x81, rx_byte 0x8B, timer1_overflow] idle_node"

definition start_then_forward :: "mcu option" where
  "start_then_forward = isr_run [rx_byte 0x01, rx_byte 0x03] idle_node"

definition stop_on_sine :: "mcu option" where
  "stop_on_sine = isr_run [rx_byte 0x00] sine_armed"

definition stop_on_idle :: "mcu option" where
  "stop_on_idle = isr_run [rx_byte 0x00] idle_node"

definition stop_on_square :: "mcu option" where
  "stop_on_square = isr_run [rx_byte 0x00] square_armed"

text \<open>
  The forward duty a sine tick computes from the sample of the next phase, clamped to the
  carrier's full scale (the lines between the routing and \<open>set_pwm10\<close> in the handler).
\<close>

definition tick_duty_fwd :: "mcu \<Rightarrow> u16" where
  "tick_duty_fwd s =
     (let f = duty_fwd_of (scale s) (sine_sample (next_phase (phase_idx s)));
          tp = pwm_top s
      in if f \<ge> tp then tp else f)"

text \<open>
  The scales a command can leave behind: \<open>lra_set_amp\<close> is called by the sine commit
  only, with the carrier period just set to 199 (full scale 799) and the percentage of a
  5-bit duty code. A state is a wire state when its duty code has five bits and its
  scale is one of these.
\<close>

definition wire_scales :: "u16 list" where
  "wire_scales = map (\<lambda>n. amp_scale 799 (duty_pct_of (of_nat n))) [0..<32]"

definition wire_state :: "mcu \<Rightarrow> bool" where
  "wire_state s \<longleftrightarrow> duty5_raw s \<le> 31 \<and> scale s \<in> set wire_scales"

text \<open>The main loop's handling of the square window: run it when a tick is pending.\<close>

definition main_square_step :: "mcu \<Rightarrow> mcu" where
  "main_square_step s =
     (if square_tick s \<noteq> 0 then (square_processing s)\<lparr>square_tick := 0\<rparr> else s)"

text \<open>
  Two sine nodes for the floor: one armed with duty code 1 (scale 24) before its first
  tick, and the fully armed node one step before the zero crossing of the table.
\<close>

definition sine_code1_armed :: mcu where
  "sine_code1_armed = sine_armed\<lparr>duty5_raw := 1, duty_pct := 3, scale := 24\<rparr>"

definition sine_before_zero :: mcu where
  "sine_before_zero = sine_armed\<lparr>phase_idx := 31, last_sign := 1\<rparr>"

text \<open>
  The first ten register writes of the STOP branch: sine timer and its interrupt off, the
  coast, the zero duty, Timer2 and the square interrupt off.
\<close>

definition stop_disarm_events :: "event list" where
  "stop_disarm_events =
     [(TMR1ON, 0), (TMR1IE, 0)] @ coast_events @ [(CCPR1H, 0), (CCPR1L, 0)]
     @ [(TMR2ON, 0), (TMR2IE, 0)]"

section \<open>Basic facts about the model\<close>

lemma run_Nil [simp]: "run [] s = s"
  by (simp add: run_def)

lemma run_Cons [simp]: "run (f # fs) s = run fs (f s)"
  by (simp add: run_def)

lemma wr_simps [simp]:
  "regs (wr r v s) = (regs s)(r := v)"
  "trace (wr r v s) = trace s @ [(r, v)]"
  "wr r v s\<lparr>regs := f, trace := t\<rparr> = s\<lparr>regs := f, trace := t\<rparr>"
  by (simp_all add: wr_def)

lemma wr_globals [simp]:
  "trmt (wr r v s) = trmt s"
  "buffer (wr r v s) = buffer s"
  "state (wr r v s) = state s"
  "wave_mode (wr r v s) = wave_mode s"
  "duty5_raw (wr r v s) = duty5_raw s"
  "duty_pct (wr r v s) = duty_pct s"
  "freq_index (wr r v s) = freq_index s"
  "uart_led_flag (wr r v s) = uart_led_flag s"
  "phase_idx (wr r v s) = phase_idx s"
  "last_sign (wr r v s) = last_sign s"
  "t1_reload (wr r v s) = t1_reload s"
  "scale (wr r v s) = scale s"
  "index200 (wr r v s) = index200 s"
  "cwg_flag (wr r v s) = cwg_flag s"
  "duty_flag (wr r v s) = duty_flag s"
  "square_tick (wr r v s) = square_tick s"
  by (simp_all add: wr_def)

lemma coast_both_trace: "trace (coast_both s) = trace s @ coast_events"
  by (simp add: coast_both_def coast_events_def)

lemma coast_both_pins: "coasted (pins_of (coast_both s))"
  by (simp add: coast_both_def coasted_def pins_of_def)

lemma route_halfcycle_trace: "trace (route_halfcycle sign s) = trace s @ route_events sign"
  by (simp add: route_halfcycle_def route_events_def)

lemma unat_u8_less: "unat (d :: u8) < 256"
  using unsigned_less [of d, where 'a = nat] by simp

section \<open>Duty mapping\<close>

lemma unat_duty_pct_of: "unat (duty_pct_of d) = (unat d * 100 div 32) mod 256"
proof -
  have d: "unat d < 256" by (rule unat_u8_less)
  have c: "unat (ucast d :: u16) = unat d"
    by (simp add: unsigned_ucast_eq take_bit_nat_eq_self_iff less_trans [OF d])
  have a: "unat ((ucast d :: u16) * 100) = unat d * 100"
    using d by (simp add: unat_word_ariths c)
  have b: "unat (((ucast d :: u16) * 100) div 32) = unat d * 100 div 32"
    by (simp add: unat_div a)
  show ?thesis
    unfolding duty_pct_of_def by (simp add: unsigned_ucast_eq b take_bit_eq_mod)
qed

lemma unat_duty_pct_of_5bit:
  assumes "d \<le> 31"
  shows "unat (duty_pct_of d) = unat d * 100 div 32"
proof -
  from assms have "unat d \<le> 31" by (simp add: word_le_nat_alt)
  then have "unat d * 100 div 32 < 256" by simp
  then show ?thesis by (simp add: unat_duty_pct_of)
qed

lemma duty_code_masked: "(b :: u8) AND 0x1F \<le> 31"
  by (rule word_and_le1)

lemma square_on_nat:
  assumes "pct \<le> 155"
  shows "square_on idx pct \<longleftrightarrow>
         unat idx < unat pct \<or> (100 \<le> unat idx \<and> unat idx < 100 + unat pct)"
proof -
  from assms have "unat pct \<le> 155" by (simp add: word_le_nat_alt)
  then have "unat (100 + pct) = 100 + unat pct"
    by (simp add: unat_word_ariths)
  then show ?thesis
    by (simp add: square_on_def word_le_nat_alt word_less_nat_alt)
qed

text \<open>
  C10. For every 5-bit duty code (0..31) the committed percentage is
  \<open>floor (code * 100 / 32)\<close> and is at most 96, so 100 percent cannot be commanded over
  the wire; the 8-bit sum \<open>100 + duty_pct\<close> of the square window test is the true sum and
  is at most 196, so the comparison does not wrap around.
\<close>

theorem duty_pct_at_most_96:
  assumes "d5 \<le> 31"
  shows "unat (duty_pct_of d5) = unat d5 * 100 div 32
       \<and> duty_pct_of d5 \<le> 96
       \<and> duty_pct_of d5 \<noteq> 100
       \<and> unat (100 + duty_pct_of d5) = 100 + unat (duty_pct_of d5)
       \<and> 100 + duty_pct_of d5 \<le> 196
       \<and> (square_on idx (duty_pct_of d5) \<longleftrightarrow>
            unat idx < unat (duty_pct_of d5)
            \<or> (100 \<le> unat idx \<and> unat idx < 100 + unat (duty_pct_of d5)))"
proof -
  from assms have d: "unat d5 \<le> 31" by (simp add: word_le_nat_alt)
  have e: "unat (duty_pct_of d5) = unat d5 * 100 div 32"
    by (rule unat_duty_pct_of_5bit [OF assms])
  from d have "unat d5 * 100 div 32 \<le> 96" by simp
  with e have p: "unat (duty_pct_of d5) \<le> 96" by simp
  then have le: "duty_pct_of d5 \<le> 96" by (simp add: word_le_nat_alt)
  from p have ne: "duty_pct_of d5 \<noteq> 100" by auto
  from p have w: "unat (100 + duty_pct_of d5) = 100 + unat (duty_pct_of d5)"
    by (simp add: unat_word_ariths)
  from p w have s: "100 + duty_pct_of d5 \<le> 196" by (simp add: word_le_nat_alt)
  from le have "duty_pct_of d5 \<le> 155" by (rule order_trans) simp
  then have q: "square_on idx (duty_pct_of d5) \<longleftrightarrow>
      unat idx < unat (duty_pct_of d5)
      \<or> (100 \<le> unat idx \<and> unat idx < 100 + unat (duty_pct_of d5))"
    by (rule square_on_nat)
  from e le ne w s q show ?thesis by blast
qed

theorem duty_pct_at_most_96_witness:
  "(31 :: u8) \<le> 31 \<and> duty_pct_of 31 = 96 \<and> (100 :: u8) + duty_pct_of 31 = 196
   \<and> unat ((100 :: u8) + duty_pct_of 31) = 196 \<and> \<not> square_on 196 (duty_pct_of 31)
   \<and> square_on 195 (duty_pct_of 31)"
proof -
  have h: "(31 :: u8) \<le> 31" by simp
  have v: "duty_pct_of 31 = 96" by (simp add: duty_pct_of_def)
  from duty_pct_at_most_96 [OF h, of 196] duty_pct_at_most_96 [OF h, of 195] v h
  show ?thesis by simp
qed

lemma lut_sorted: "sorted duty_cycle_lut_5bit"
  by (simp add: duty_cycle_lut_5bit_def)

lemma lut_mono:
  assumes "a \<le> b" and "b \<le> 31"
  shows "lut_duty_cycle a \<le> lut_duty_cycle b"
proof -
  from assms have "unat a \<le> unat b" and "unat b < length duty_cycle_lut_5bit"
    by (simp_all add: word_le_nat_alt duty_cycle_lut_5bit_def)
  with lut_sorted show ?thesis
    unfolding lut_duty_cycle_def by (simp add: sorted_iff_nth_mono)
qed

text \<open>The index computed from a data byte always lies inside the table.\<close>

lemma duty_index_in_table: "unat (duty_index_of b) < length duty_cycle_lut_5bit"
proof -
  have "b AND DUTY_MASK \<le> 0x7C"
    unfolding DUTY_MASK_def by (rule word_and_le1)
  then have "unat (b AND DUTY_MASK) \<le> 124" by (simp add: word_le_nat_alt)
  then have "unat (b AND DUTY_MASK) div 4 < 32" by simp
  moreover have "unat (duty_index_of b) = unat (b AND DUTY_MASK) div 4"
    by (simp add: duty_index_of_def drop_bit_eq_div unat_div)
  moreover have "length duty_cycle_lut_5bit = 32"
    by (simp add: duty_cycle_lut_5bit_def)
  ultimately show ?thesis by simp
qed

lemma duty_pct_of_mono:
  assumes "a \<le> b" and "b \<le> 31"
  shows "duty_pct_of a \<le> duty_pct_of b"
proof -
  from assms have a31: "a \<le> 31" by simp
  from assms have "unat a \<le> unat b" by (simp add: word_le_nat_alt)
  then have "unat a * 100 div 32 \<le> unat b * 100 div 32"
    by (intro div_le_mono mult_le_mono1)
  then show ?thesis
    by (simp add: word_le_nat_alt unat_duty_pct_of_5bit [OF a31]
        unat_duty_pct_of_5bit [OF assms(2)])
qed

lemmas engine_defs = UART_start_sine_def UART_start_square_def coast_both_def set_pwm10_def
  lra_set_amp_def t1_apply_reload_def Let_def

lemma start_sine_frame:
  "duty_pct (UART_start_sine s) = duty_pct s"
  "wave_mode (UART_start_sine s) = wave_mode s"
  "duty5_raw (UART_start_sine s) = duty5_raw s"
  "freq_index (UART_start_sine s) = freq_index s"
  "state (UART_start_sine s) = state s"
  "phase_idx (UART_start_sine s) = 0"
  "last_sign (UART_start_sine s) = 0"
  "scale (UART_start_sine s) = amp_scale 799 (duty_pct s)"
  by (simp_all add: engine_defs wr_def pwm_top_def)

lemma start_square_frame:
  "duty_pct (UART_start_square s) = duty_pct s"
  "wave_mode (UART_start_square s) = wave_mode s"
  "duty5_raw (UART_start_square s) = duty5_raw s"
  "freq_index (UART_start_square s) = freq_index s"
  "state (UART_start_square s) = state s"
  "index200 (UART_start_square s) = 0"
  "scale (UART_start_square s) = scale s"
  by (simp_all add: engine_defs wr_def)

lemma commit_duty_pct:
  assumes "drop_bit 7 b \<noteq> 0" and "state s \<noteq> 0" and "state s \<noteq> 1"
  shows "\<exists>s'. UART_processing (s\<lparr>buffer := b\<rparr>) = Some s'
            \<and> duty_pct s' = duty_pct_of (duty5_raw s)
            \<and> wave_mode s' = drop_bit 3 (b AND 0x7F) AND 1"
  using assms by (simp add: UART_processing_def Let_def start_sine_frame start_square_frame)

text \<open>
  C6. The duty mapping sends code 0 to 0, is non-decreasing over the codes 0..31, and
  sends code 31 to at most 100. This holds for the formula of the firmware, which the
  commit applies before it looks at the waveform bit, so for both waveforms, and for the
  table of the table-driven variant.
\<close>

theorem duty_mapper_contract:
  "duty_pct_of 0 = 0
   \<and> (a \<le> b \<and> b \<le> 31 \<longrightarrow> duty_pct_of a \<le> duty_pct_of b)
   \<and> duty_pct_of 31 \<le> 100
   \<and> (drop_bit 7 w \<noteq> 0 \<and> state s \<noteq> 0 \<and> state s \<noteq> 1 \<longrightarrow>
        (\<exists>s'. UART_processing (s\<lparr>buffer := w\<rparr>) = Some s'
            \<and> duty_pct s' = duty_pct_of (duty5_raw s)
            \<and> wave_mode s' = drop_bit 3 (w AND 0x7F) AND 1))
   \<and> lut_duty_cycle 0 = 0
   \<and> (a \<le> b \<and> b \<le> 31 \<longrightarrow> lut_duty_cycle a \<le> lut_duty_cycle b)
   \<and> lut_duty_cycle 31 \<le> 100"
proof -
  have z: "duty_pct_of 0 = 0" by (simp add: duty_pct_of_def)
  have t: "duty_pct_of 31 \<le> 100" by (simp add: duty_pct_of_def)
  have lz: "lut_duty_cycle 0 = 0"
    by (simp add: lut_duty_cycle_def duty_cycle_lut_5bit_def)
  have lt: "lut_duty_cycle 31 \<le> 100"
    by (simp add: lut_duty_cycle_def duty_cycle_lut_5bit_def)
  from z t lz lt duty_pct_of_mono [of a b] lut_mono [of a b] commit_duty_pct [of w s]
  show ?thesis by blast
qed

theorem duty_mapper_contract_witness:
  "(10 :: u8) \<le> 20 \<and> (20 :: u8) \<le> 31
   \<and> duty_pct_of 10 \<le> duty_pct_of 20 \<and> lut_duty_cycle 10 \<le> lut_duty_cycle 20
   \<and> duty_pct_of 10 = 31 \<and> duty_pct_of 20 = 62
   \<and> lut_duty_cycle 10 = 10 \<and> lut_duty_cycle 20 = 42
   \<and> (\<exists>s'. UART_processing (idle_node\<lparr>state := 2, duty5_raw := 10, buffer := 0x8B\<rparr>) = Some s'
          \<and> duty_pct s' = 31 \<and> wave_mode s' = 1)
   \<and> (\<exists>s'. UART_processing (idle_node\<lparr>state := 2, duty5_raw := 10, buffer := 0x83\<rparr>) = Some s'
          \<and> duty_pct s' = 31 \<and> wave_mode s' = 0)"
proof -
  have v: "duty_pct_of 10 = 31" "duty_pct_of 20 = 62"
    by (simp_all add: duty_pct_of_def)
  have l: "lut_duty_cycle 10 = 10" "lut_duty_cycle 20 = 42"
    by (simp_all add: lut_duty_cycle_def duty_cycle_lut_5bit_def)
  have h: "(10 :: u8) \<le> 20" "(20 :: u8) \<le> 31" by simp_all
  have g: "drop_bit 7 (0x8B :: u8) \<noteq> 0" "drop_bit 7 (0x83 :: u8) \<noteq> 0"
    "drop_bit 3 ((0x8B :: u8) AND 0x7F) AND 1 = 1" "drop_bit 3 ((0x83 :: u8) AND 0x7F) AND 1 = 0"
    by simp_all
  have i: "state (idle_node\<lparr>state := 2, duty5_raw := 10\<rparr>) \<noteq> 0"
    "state (idle_node\<lparr>state := 2, duty5_raw := 10\<rparr>) \<noteq> 1"
    "duty5_raw (idle_node\<lparr>state := 2, duty5_raw := 10\<rparr>) = 10"
    by simp_all
  from duty_mapper_contract [of 10 20 "0x8B" "idle_node\<lparr>state := 2, duty5_raw := 10\<rparr>"]
       duty_mapper_contract [of 10 20 "0x83" "idle_node\<lparr>state := 2, duty5_raw := 10\<rparr>"]
       v l h g i
  show ?thesis by simp
qed

section \<open>Square window\<close>

lemma length_filter_upt: "length (filter P [a..<b]) = card ({p. P p} \<inter> {a..<b})"
  by (simp only: distinct_length_filter [OF distinct_upt] set_upt)

lemma count_below:
  assumes "d \<le> h" 
  shows "length (filter (\<lambda>p. p < d \<or> (h \<le> p \<and> p < h + d)) [0..<h]) = d"
    and "length (filter (\<lambda>p. p < d \<or> (h \<le> p \<and> p < h + d)) [h..<h + h]) = d"
proof -
  have "{p. p < d \<or> (h \<le> p \<and> p < h + d)} \<inter> {0..<h} = {0..<d}"
    using assms by auto
  then show "length (filter (\<lambda>p. p < d \<or> (h \<le> p \<and> p < h + d)) [0..<h]) = d"
    by (simp add: length_filter_upt)
  have "{p. p < d \<or> (h \<le> p \<and> p < h + d)} \<inter> {h..<h + h} = {h..<h + d}"
    using assms by auto
  then show "length (filter (\<lambda>p. p < d \<or> (h \<le> p \<and> p < h + d)) [h..<h + h]) = d"
    by (simp add: length_filter_upt)
qed

lemma take_positions: "m \<le> n \<Longrightarrow> take m (map f [0..<n]) = map f [0..<m]"
  by (simp add: take_map)

lemma drop_positions: "drop m (map f [0..<n]) = map f [m..<n]"
  by (simp add: drop_map)

lemma square_on_position:
  assumes "d \<le> 100" and "p < 200"
  shows "square_on (of_nat p) d \<longleftrightarrow> p < unat d \<or> (100 \<le> p \<and> p < 100 + unat d)"
proof -
  from assms(1) have "d \<le> 155" by (rule order_trans) simp
  moreover from assms(2) have "unat (of_nat p :: u8) = p"
    by (simp add: unat_of_nat)
  ultimately show ?thesis by (simp add: square_on_nat)
qed

lemma on_count_positions:
  assumes "d \<le> 100" and "set ps \<subseteq> {0..<200}"
  shows "filter (\<lambda>p. square_on p d) (map of_nat ps)
       = map of_nat (filter (\<lambda>p. p < unat d \<or> (100 \<le> p \<and> p < 100 + unat d)) ps)"
proof -
  have "filter (\<lambda>p. square_on (of_nat p) d) ps
      = filter (\<lambda>p. p < unat d \<or> (100 \<le> p \<and> p < 100 + unat d)) ps"
    using assms(2) by (intro filter_cong refl square_on_position [OF assms(1)]) auto
  then show ?thesis by (simp add: filter_map comp_def)
qed

lemma TMR2_tick_index:
  assumes "wave_mode s = 0" and "index200 s < 200"
  shows "unat (index200 (TMR2_tick s)) = (unat (index200 s) + 1) mod 200"
    and "wave_mode (TMR2_tick s) = 0"
    and "index200 (TMR2_tick s) < 200"
proof -
  from assms(2) have i: "unat (index200 s) < 200" by (simp add: word_less_nat_alt)
  then have u: "unat (index200 s + 1) = unat (index200 s) + 1"
    by (simp add: unat_word_ariths)
  have e: "index200 s + 1 = 200 \<longleftrightarrow> unat (index200 s) + 1 = 200"
    using u by (simp add: word_unat_eq_iff)
  show "unat (index200 (TMR2_tick s)) = (unat (index200 s) + 1) mod 200"
    using assms(1) i u e by (auto simp add: TMR2_tick_def Let_def)
  show "wave_mode (TMR2_tick s) = 0"
    using assms(1) by (simp add: TMR2_tick_def Let_def)
  show "index200 (TMR2_tick s) < 200"
    using assms(1) i u e by (auto simp add: TMR2_tick_def Let_def word_less_nat_alt)
qed


lemma tick_positions_unat:
  assumes "wave_mode s = 0" and "index200 s < 200"
  shows "map unat (tick_positions n s)
       = map (\<lambda>k. (unat (index200 s) + k) mod 200) [1..<Suc n]"
  using assms
proof (induction n arbitrary: s)
  case 0
  show ?case by simp
next
  case (Suc n)
  let ?t = "TMR2_tick s"
  let ?i = "unat (index200 s)"
  note T = TMR2_tick_index [OF Suc.prems]
  have "map unat (tick_positions n ?t)
      = map (\<lambda>k. (unat (index200 ?t) + k) mod 200) [1..<Suc n]"
    by (rule Suc.IH [OF T(2) T(3)])
  also have "\<dots> = map (\<lambda>k. (?i + Suc k) mod 200) [1..<Suc n]"
    by (simp add: T(1) mod_add_left_eq)
  also have "\<dots> = map (\<lambda>k. (?i + k) mod 200) (map Suc [1..<Suc n])"
    by (simp add: comp_def)
  also have "\<dots> = map (\<lambda>k. (?i + k) mod 200) [Suc 1..<Suc (Suc n)]"
    by (simp only: map_Suc_upt)
  finally have r: "map unat (tick_positions n ?t)
      = map (\<lambda>k. (?i + k) mod 200) [Suc 1..<Suc (Suc n)]" .
  have "[1..<Suc (Suc n)] = 1 # [Suc 1..<Suc (Suc n)]"
    by (simp add: upt_conv_Cons)
  then show ?case
    using r T(1) by simp
qed

lemma cycle_positions:
  fixes i :: nat
  assumes "0 < w"
  shows "distinct (map (\<lambda>k. (i + k) mod w) [1..<Suc w])"
    and "set (map (\<lambda>k. (i + k) mod w) [1..<Suc w]) = {0..<w}"
proof -
  have inj: "inj_on (\<lambda>k. (i + k) mod w) {1..<Suc w}"
  proof (rule inj_onI)
    fix x y
    assume x: "x \<in> {1..<Suc w}" and y: "y \<in> {1..<Suc w}"
      and e: "(i + x) mod w = (i + y) mod w"
    have close: "b = a" if "a \<le> b" and "a \<in> {1..<Suc w}" and "b \<in> {1..<Suc w}"
      and "(i + a) mod w = (i + b) mod w" for a b
    proof -
      from that(1) have "i + a \<le> i + b" by simp
      from mod_eq_dvd_iff_nat [OF this, of w] that(4) have "w dvd (i + b) - (i + a)"
        by metis
      then have "w dvd b - a" by simp
      moreover from that(2,3) have "b - a < w" by auto
      ultimately have "b - a = 0" by (meson nat_dvd_not_less not_gr_zero)
      with that(1) show ?thesis by simp
    qed
    show "x = y"
    proof (cases "x \<le> y")
      case True
      from close [OF True x y e] show ?thesis by simp
    next
      case False
      then have "y \<le> x" by simp
      from close [OF this y x e [symmetric]] show ?thesis .
    qed
  qed
  then show d: "distinct (map (\<lambda>k. (i + k) mod w) [1..<Suc w])"
    by (simp only: distinct_map distinct_upt set_upt simp_thms)
  have "(\<lambda>k. (i + k) mod w) ` {1..<Suc w} \<subseteq> {0..<w}"
    using assms by auto
  then have sub: "set (map (\<lambda>k. (i + k) mod w) [1..<Suc w]) \<subseteq> {0..<w}"
    by (simp only: set_map set_upt)
  have "length (map (\<lambda>k. (i + k) mod w) [1..<Suc w]) = w"
    by (simp only: length_map length_upt diff_Suc_1)
  with distinct_card [OF d]
  have "card (set (map (\<lambda>k. (i + k) mod w) [1..<Suc w])) = card {0..<w}"
    by simp
  with sub show "set (map (\<lambda>k. (i + k) mod w) [1..<Suc w]) = {0..<w}"
    by (intro card_subset_eq) simp_all
qed

lemma length_filter_same_set:
  assumes "distinct xs" and "distinct ys" and "set xs = set ys"
  shows "length (filter P xs) = length (filter P ys)"
  using assms by (simp add: distinct_length_filter)

lemma on_count_unat:
  assumes "d \<le> 100"
  shows "length (filter (\<lambda>p. square_on p d) ps)
       = length (filter (\<lambda>n. n < unat d \<or> (100 \<le> n \<and> n < 100 + unat d)) (map unat ps))"
proof -
  from assms have "d \<le> 155" by (rule order_trans) simp
  then have "square_on p d \<longleftrightarrow>
      unat p < unat d \<or> (100 \<le> unat p \<and> unat p < 100 + unat d)" for p
    by (rule square_on_nat)
  then show ?thesis
    by (simp add: filter_map comp_def)
qed

lemma full_cycle_on_count:
  assumes "wave_mode s = 0" and "index200 s < 200" and "d \<le> 100"
  shows "length (filter (\<lambda>p. square_on p d) (tick_positions 200 s)) = 2 * unat d"
proof -
  let ?Q = "\<lambda>n. n < unat d \<or> (100 \<le> n \<and> n < 100 + unat d)"
  let ?ns = "map (\<lambda>k. (unat (index200 s) + k) mod 200) [1..<Suc 200]"
  from assms(3) have d: "unat d \<le> 100" by (simp add: word_le_nat_alt)
  have "length (filter (\<lambda>p. square_on p d) (tick_positions 200 s))
      = length (filter ?Q (map unat (tick_positions 200 s)))"
    by (rule on_count_unat [OF assms(3)])
  also have "\<dots> = length (filter ?Q ?ns)"
    by (simp only: tick_positions_unat [OF assms(1,2)])
  also have "\<dots> = length (filter ?Q [0..<100 + 100])"
  proof (rule length_filter_same_set)
    show "distinct ?ns" by (rule cycle_positions(1)) simp
    show "distinct [0..<100 + 100]" by (rule distinct_upt)
    have "set ?ns = {0..<200}" by (rule cycle_positions(2)) simp
    then show "set ?ns = set [0..<100 + 100]" by (simp only: set_upt) simp
  qed
  also have "\<dots> = length (filter ?Q [0..<100]) + length (filter ?Q [100..<100 + 100])"
    by (simp only: upt_add_eq_append [OF le0] filter_append length_append)
  also have "\<dots> = 2 * unat d"
    by (simp only: count_below [OF d] mult_2)
  finally show ?thesis .
qed

text \<open>
  C4. For a committed duty \<open>d\<close> between 0 and 100, the window test of the square engine
  is ON at exactly \<open>2d\<close> of the 200 window positions, \<open>d\<close> of them in each half of the
  cycle, and OFF at the other \<open>200 - 2d\<close>. The Timer2 branch of the handler steps the
  position through all 200 values, so the same count holds over any 200 consecutive ticks.
\<close>

theorem square_window_symmetry:
  assumes "d \<le> 100"
  shows "length (filter (\<lambda>p. square_on p d) window_positions) = 2 * unat d
       \<and> length (filter (\<lambda>p. square_on p d) (take 100 window_positions)) = unat d
       \<and> length (filter (\<lambda>p. square_on p d) (drop 100 window_positions)) = unat d
       \<and> length (filter (\<lambda>p. \<not> square_on p d) window_positions) = 200 - 2 * unat d
       \<and> (wave_mode s = 0 \<and> index200 s < 200 \<longrightarrow>
            length (filter (\<lambda>p. square_on p d) (tick_positions 200 s)) = 2 * unat d)"
proof -
  from assms have d: "unat d \<le> 100" by (simp add: word_le_nat_alt)
  have t: "take 100 window_positions = map of_nat [0..<100]"
    unfolding window_positions_def by (rule take_positions) simp
  have r: "drop 100 window_positions = map of_nat [100..<100 + 100]"
    unfolding window_positions_def by (simp only: drop_positions) simp
  have w: "window_positions = take 100 window_positions @ drop 100 window_positions"
    by simp
  have a: "length (filter (\<lambda>p. square_on p d) (take 100 window_positions)) = unat d"
    unfolding t
    by (subst on_count_positions [OF assms])
       (simp_all only: set_upt length_map count_below [OF d], simp)
  have b: "length (filter (\<lambda>p. square_on p d) (drop 100 window_positions)) = unat d"
    unfolding r
    by (subst on_count_positions [OF assms])
       (simp_all only: set_upt length_map count_below [OF d], simp)
  have c: "length (filter (\<lambda>p. square_on p d) window_positions) = 2 * unat d"
    by (subst w) (simp only: filter_append length_append a b mult_2)
  have l: "length window_positions = 200"
    by (simp only: window_positions_def length_map length_upt)
  have "length (filter (\<lambda>p. square_on p d) window_positions)
      + length (filter (\<lambda>p. \<not> square_on p d) window_positions) = length window_positions"
    by (rule sum_length_filter_compl)
  then have e: "length (filter (\<lambda>p. \<not> square_on p d) window_positions) = 200 - 2 * unat d"
    unfolding c l by arith
  from a b c e full_cycle_on_count [of s d] assms show ?thesis by blast
qed

theorem square_window_symmetry_witness:
  "(96 :: u8) \<le> 100
   \<and> wave_mode square_armed = 0 \<and> index200 square_armed < 200
   \<and> length (filter (\<lambda>p. square_on p 96) window_positions) = 192
   \<and> length (filter (\<lambda>p. square_on p 96) (take 100 window_positions)) = 96
   \<and> length (filter (\<lambda>p. square_on p 96) (drop 100 window_positions)) = 96
   \<and> length (filter (\<lambda>p. \<not> square_on p 96) window_positions) = 8
   \<and> length (filter (\<lambda>p. square_on p 96) (tick_positions 200 square_armed)) = 192"
proof -
  have h: "(96 :: u8) \<le> 100" by simp
  have g: "wave_mode square_armed = 0" "index200 square_armed < 200"
    by (simp_all add: square_armed_def)
  from square_window_symmetry [OF h, of square_armed] h g show ?thesis by simp
qed

section \<open>The sine tick\<close>

text \<open>The phase index stays inside the sine table.\<close>

lemma next_phase_in_table: "unat (next_phase p) < length SINE64_8"
  by (simp add: next_phase_def SINE_LEN_def SINE64_8_def Let_def word_le_nat_alt)

lemmas tick_defs = TMR1_tick_def tick_sign_def coast_both_def set_pwm10_def route_halfcycle_def
  new_events_def coast_events_def route_events_def Let_def

lemma sine_tick_events:
  assumes "wave_mode s \<noteq> 0"
  shows "new_events s (TMR1_tick s) =
     [(TMR1IF, 0), (TMR1H, ucast (drop_bit 8 (t1_reload s))), (TMR1L, ucast (t1_reload s AND 0xFF))]
     @ (if scale s = 0 then coast_events @ [(CCPR1H, 0), (CCPR1L, 0)]
        else (if tick_sign s \<noteq> last_sign s then coast_events @ route_events (tick_sign s) else [])
             @ (let f = duty_fwd_of (scale s) (sine_sample (next_phase (phase_idx s)));
                    tp = pwm_top s;
                    v = tp - (if f \<ge> tp then tp else f)
                in [(CCPR1H, ucast (drop_bit 2 v)), (CCPR1L, ucast (push_bit 6 (v AND 3)))]))"
  using assms by (simp add: tick_defs wr_def pwm_top_def)

lemma sine_tick_idle_events:
  assumes "wave_mode s = 0"
  shows "new_events s (TMR1_tick s) = [(TMR1IF, 0)]"
  using assms by (simp add: tick_defs)

lemma sine_tick_frame:
  "scale (TMR1_tick s) = scale s"
  "wave_mode (TMR1_tick s) = wave_mode s"
  "t1_reload (TMR1_tick s) = t1_reload s"
  "regs (TMR1_tick s) PR2 = regs s PR2"
  "state (TMR1_tick s) = state s"
  "duty_pct (TMR1_tick s) = duty_pct s"
  by (simp_all add: tick_defs wr_def)

lemma sine_tick_last_sign:
  "wave_mode s \<noteq> 0 \<Longrightarrow> last_sign (TMR1_tick s) = tick_sign s"
  by (simp add: tick_defs wr_def)

lemma sine_tick_trace: "trace (TMR1_tick s) = trace s @ new_events s (TMR1_tick s)"
  by (simp add: tick_defs)

lemma sine_tick_pin_writes:
  assumes "wave_mode s \<noteq> 0"
  shows "filter pin_write (new_events s (TMR1_tick s)) =
           (if scale s = 0 then coast_events
            else if tick_sign s \<noteq> last_sign s then coast_events @ route_events (tick_sign s)
            else [])"
  unfolding sine_tick_events [OF assms]
  by (simp add: pin_write_def coast_events_def route_events_def Let_def)

lemma sine_tick_pins:
  "pins_of (TMR1_tick s) = foldl pin_step (pins_of s) (new_events s (TMR1_tick s))"
proof (cases "wave_mode s = 0")
  case True
  then show ?thesis
    unfolding sine_tick_idle_events [OF True] by (simp add: pins_of_def tick_defs)
next
  case False
  show ?thesis
    unfolding sine_tick_events [OF False]
    using False
    by (simp add: pins_of_def tick_defs wr_def)
qed

lemma sine_tick_bbm: "break_before_make (pins_of s) (new_events s (TMR1_tick s))"
proof (cases "wave_mode s = 0")
  case True
  then show ?thesis
    unfolding sine_tick_idle_events [OF True] by (cases "pins_of s") simp
next
  case False
  show ?thesis
    unfolding sine_tick_events [OF False]
    by (cases "pins_of s")
       (simp add: coast_events_def route_events_def coasted_def CCP1_PPS_CODE_def Let_def)
qed

lemma bbm_append:
  "break_before_make p (xs @ ys) \<longleftrightarrow>
     break_before_make p xs \<and> break_before_make (foldl pin_step p xs) ys"
  by (induction xs arbitrary: p) auto

lemma sine_ticks_invariant:
  "trace ((TMR1_tick ^^ n) s) = trace s @ new_events s ((TMR1_tick ^^ n) s)
   \<and> pins_of ((TMR1_tick ^^ n) s) = foldl pin_step (pins_of s) (new_events s ((TMR1_tick ^^ n) s))
   \<and> break_before_make (pins_of s) (new_events s ((TMR1_tick ^^ n) s))"
proof (induction n)
  case 0
  show ?case by (simp add: new_events_def)
next
  case (Suc n)
  let ?sn = "(TMR1_tick ^^ n) s"
  let ?E = "new_events s ?sn"
  let ?F = "new_events ?sn (TMR1_tick ?sn)"
  from Suc.IH have t: "trace ?sn = trace s @ ?E"
    and p: "pins_of ?sn = foldl pin_step (pins_of s) ?E"
    and b: "break_before_make (pins_of s) ?E" by blast+
  have t': "trace (TMR1_tick ?sn) = trace s @ ?E @ ?F"
    using sine_tick_trace [of ?sn] t by simp
  then have e: "new_events s (TMR1_tick ?sn) = ?E @ ?F"
    by (simp add: new_events_def [of s])
  have "pins_of (TMR1_tick ?sn) = foldl pin_step (pins_of s) (?E @ ?F)"
    using sine_tick_pins [of ?sn] p by simp
  moreover have "break_before_make (pins_of s) (?E @ ?F)"
    using b sine_tick_bbm [of ?sn] p by (simp add: bbm_append)
  ultimately show ?case using t' e by simp
qed

text \<open>
  C1. In a tick of the sine engine, whenever the sign to drive differs from \<open>last_sign\<close>
  the bridge is coasted and only then routed for the new half-cycle; a tick whose sign is
  unchanged writes no pin at all; with a zero scale the tick only coasts. Over any number
  of ticks, from any state, a peripheral output is attached to a pin only in the coast
  state.
\<close>

theorem sine_break_before_make:
  assumes "wave_mode s \<noteq> 0"
  shows "filter pin_write (new_events s (TMR1_tick s)) =
           (if scale s = 0 then coast_events
            else if tick_sign s \<noteq> last_sign s then coast_events @ route_events (tick_sign s)
            else [])
       \<and> last_sign (TMR1_tick s) = tick_sign s
       \<and> break_before_make (pins_of s) (new_events s ((TMR1_tick ^^ n) s))"
  using sine_tick_pin_writes [OF assms] sine_tick_last_sign [OF assms]
    sine_ticks_invariant [of n s] by blast

lemma sine_armed_sign: "tick_sign sine_armed = 1" "last_sign sine_armed = 0"
  "wave_mode sine_armed = 1" "scale sine_armed = 767"
  by (simp_all add: tick_sign_def sine_armed_def idle_node_def next_phase_def SINE_LEN_def
      sine_sample_def SINE64_8_def word_le_nat_alt)

theorem sine_break_before_make_witness:
  "wave_mode sine_armed \<noteq> 0
   \<and> tick_sign sine_armed \<noteq> last_sign sine_armed
   \<and> filter pin_write (new_events sine_armed (TMR1_tick sine_armed)) =
       [(RA1PPS, 0), (LATA1, 0), (RA0PPS, 0), (LATA0, 0),
        (RA0PPS, 0x0C), (RA1PPS, 0), (LATA1, 1), (LATA0, 0)]
   \<and> last_sign (TMR1_tick sine_armed) = 1
   \<and> break_before_make (pins_of sine_armed)
        (new_events sine_armed ((TMR1_tick ^^ 2) sine_armed))"
proof -
  have h: "wave_mode sine_armed \<noteq> 0" by (simp add: sine_armed_sign)
  from sine_break_before_make [OF h, of 2] h
  show ?thesis
    by (simp add: sine_armed_sign coast_events_def route_events_def CCP1_PPS_CODE_def)
qed

lemma amp_scale_zero: "amp_scale tp 0 = 0"
  by (simp add: amp_scale_def)

lemma sine_commit_zero:
  assumes "drop_bit 7 (buffer s) \<noteq> 0" and "state s \<noteq> 0" and "state s \<noteq> 1"
    and "drop_bit 3 (buffer s AND 0x7F) AND 1 \<noteq> 0"
    and "duty_pct_of (duty5_raw s) = 0"
  shows "\<exists>s1. UART_processing s = Some s1 \<and> duty_pct s1 = 0 \<and> scale s1 = 0
             \<and> wave_mode s1 \<noteq> 0 \<and> state s1 = 0"
  using assms
  by (simp add: UART_processing_def Let_def start_sine_frame amp_scale_zero)

lemma sine_ticks_frame:
  "scale ((TMR1_tick ^^ n) s) = scale s"
  "wave_mode ((TMR1_tick ^^ n) s) = wave_mode s"
  "t1_reload ((TMR1_tick ^^ n) s) = t1_reload s"
  by (induction n) (simp_all add: sine_tick_frame)

lemma silent_tick_events:
  assumes "wave_mode s \<noteq> 0" and "scale s = 0"
  shows "new_events s (TMR1_tick s) =
     [(TMR1IF, 0), (TMR1H, ucast (drop_bit 8 (t1_reload s))),
      (TMR1L, ucast (t1_reload s AND 0xFF))]
     @ coast_events @ [(CCPR1H, 0), (CCPR1L, 0)]"
  using sine_tick_events [OF assms(1)] assms(2) by simp

lemma silent_tick_regs:
  assumes "wave_mode s \<noteq> 0" and "scale s = 0"
  shows "regs (TMR1_tick s) CCPR1H = 0" "regs (TMR1_tick s) CCPR1L = 0"
    "coasted (pins_of (TMR1_tick s))"
  using assms by (simp_all add: tick_defs pins_of_def coasted_def)

lemma new_events_tick_Suc:
  "new_events s ((TMR1_tick ^^ Suc n) s) =
     new_events s ((TMR1_tick ^^ n) s)
     @ new_events ((TMR1_tick ^^ n) s) (TMR1_tick ((TMR1_tick ^^ n) s))"
proof -
  let ?sn = "(TMR1_tick ^^ n) s"
  have "trace ?sn = trace s @ new_events s ?sn"
    using sine_ticks_invariant [of n s] by blast
  with sine_tick_trace [of ?sn]
  have "trace (TMR1_tick ?sn) = trace s @ new_events s ?sn @ new_events ?sn (TMR1_tick ?sn)"
    by simp
  then show ?thesis by (simp add: new_events_def [of s])
qed

lemma silent_ticks_duty_writes:
  assumes "wave_mode s \<noteq> 0" and "scale s = 0"
  shows "\<forall>e \<in> set (new_events s ((TMR1_tick ^^ n) s)). duty_write e \<longrightarrow> snd e = 0"
proof (induction n)
  case 0
  show ?case by (simp add: new_events_def)
next
  case (Suc n)
  let ?sn = "(TMR1_tick ^^ n) s"
  have w: "wave_mode ?sn \<noteq> 0" and z: "scale ?sn = 0"
    using assms by (simp_all add: sine_ticks_frame)
  have "\<forall>e \<in> set (new_events ?sn (TMR1_tick ?sn)). duty_write e \<longrightarrow> snd e = 0"
    unfolding silent_tick_events [OF w z]
    by (simp add: duty_write_def coast_events_def)
  with Suc.IH show ?case
    unfolding new_events_tick_Suc by auto
qed

text \<open>
  C7. After a sine commit whose duty is 0 the scale is 0, and from then on every tick of
  the sine engine coasts the bridge and writes 0 to the duty register: over any number of
  ticks no duty write of the engine is non-zero. (The scale stays 0 until another sine
  commit computes a new one.)
\<close>

theorem sine_coast_on_zero:
  assumes "drop_bit 7 (buffer s) \<noteq> 0" and "state s \<noteq> 0" and "state s \<noteq> 1"
    and "drop_bit 3 (buffer s AND 0x7F) AND 1 \<noteq> 0"
    and "duty_pct_of (duty5_raw s) = 0"
  shows "\<exists>s1. UART_processing s = Some s1 \<and> duty_pct s1 = 0 \<and> scale s1 = 0
          \<and> wave_mode s1 \<noteq> 0
          \<and> (\<forall>n. scale ((TMR1_tick ^^ n) s1) = 0
                \<and> filter pin_write (new_events ((TMR1_tick ^^ n) s1) ((TMR1_tick ^^ Suc n) s1))
                    = coast_events
                \<and> filter duty_write (new_events ((TMR1_tick ^^ n) s1) ((TMR1_tick ^^ Suc n) s1))
                    = [(CCPR1H, 0), (CCPR1L, 0)]
                \<and> coasted (pins_of ((TMR1_tick ^^ Suc n) s1))
                \<and> duty_register ((TMR1_tick ^^ Suc n) s1) = 0
                \<and> (\<forall>e \<in> set (new_events s1 ((TMR1_tick ^^ n) s1)). duty_write e \<longrightarrow> snd e = 0))"
proof -
  from sine_commit_zero [OF assms] obtain s1 where
    c: "UART_processing s = Some s1" "duty_pct s1 = 0" and z: "scale s1 = 0"
    and w: "wave_mode s1 \<noteq> 0" by blast
  have "scale ((TMR1_tick ^^ n) s1) = 0
      \<and> filter pin_write (new_events ((TMR1_tick ^^ n) s1) ((TMR1_tick ^^ Suc n) s1))
          = coast_events
      \<and> filter duty_write (new_events ((TMR1_tick ^^ n) s1) ((TMR1_tick ^^ Suc n) s1))
          = [(CCPR1H, 0), (CCPR1L, 0)]
      \<and> coasted (pins_of ((TMR1_tick ^^ Suc n) s1))
      \<and> duty_register ((TMR1_tick ^^ Suc n) s1) = 0
      \<and> (\<forall>e \<in> set (new_events s1 ((TMR1_tick ^^ n) s1)). duty_write e \<longrightarrow> snd e = 0)" for n
  proof -
    let ?sn = "(TMR1_tick ^^ n) s1"
    have wn: "wave_mode ?sn \<noteq> 0" and zn: "scale ?sn = 0"
      using w z by (simp_all add: sine_ticks_frame)
    have p: "filter pin_write (new_events ?sn (TMR1_tick ?sn)) = coast_events"
      unfolding silent_tick_events [OF wn zn]
      by (simp add: pin_write_def coast_events_def)
    have d: "filter duty_write (new_events ?sn (TMR1_tick ?sn)) = [(CCPR1H, 0), (CCPR1L, 0)]"
      unfolding silent_tick_events [OF wn zn]
      by (simp add: duty_write_def coast_events_def)
    have r: "duty_register (TMR1_tick ?sn) = 0"
      by (simp add: duty_register_def silent_tick_regs [OF wn zn])
    from zn p d r silent_tick_regs(3) [OF wn zn] silent_ticks_duty_writes [OF w z, of n]
    show ?thesis by simp
  qed
  with c z w show ?thesis by blast
qed

theorem sine_coast_on_zero_witness:
  "drop_bit 7 (buffer (idle_node\<lparr>state := 2, buffer := 0x8B\<rparr>)) \<noteq> 0
   \<and> state (idle_node\<lparr>state := 2, buffer := 0x8B\<rparr>) \<noteq> 0
   \<and> state (idle_node\<lparr>state := 2, buffer := 0x8B\<rparr>) \<noteq> 1
   \<and> drop_bit 3 (buffer (idle_node\<lparr>state := 2, buffer := 0x8B\<rparr>) AND 0x7F) AND 1 \<noteq> 0
   \<and> duty_pct_of (duty5_raw (idle_node\<lparr>state := 2, buffer := 0x8B\<rparr>)) = 0
   \<and> (\<exists>s1. UART_processing (idle_node\<lparr>state := 2, buffer := 0x8B\<rparr>) = Some s1
          \<and> scale s1 = 0
          \<and> duty_register ((TMR1_tick ^^ 3) s1) = 0
          \<and> coasted (pins_of ((TMR1_tick ^^ 3) s1))
          \<and> filter duty_write (new_events ((TMR1_tick ^^ 2) s1) ((TMR1_tick ^^ 3) s1))
               = [(CCPR1H, 0), (CCPR1L, 0)])"
proof -
  let ?s = "idle_node\<lparr>state := 2, buffer := 0x8B\<rparr>"
  have h: "drop_bit 7 (buffer ?s) \<noteq> 0" "state ?s \<noteq> 0" "state ?s \<noteq> 1"
    "drop_bit 3 (buffer ?s AND 0x7F) AND 1 \<noteq> 0" "duty_pct_of (duty5_raw ?s) = 0"
    by (simp_all add: idle_node_def duty_pct_of_def)
  from sine_coast_on_zero [OF h] obtain s1 where
    a: "UART_processing ?s = Some s1" "scale s1 = 0"
    and b: "\<forall>n. scale ((TMR1_tick ^^ n) s1) = 0
                \<and> filter pin_write (new_events ((TMR1_tick ^^ n) s1) ((TMR1_tick ^^ Suc n) s1))
                    = coast_events
                \<and> filter duty_write (new_events ((TMR1_tick ^^ n) s1) ((TMR1_tick ^^ Suc n) s1))
                    = [(CCPR1H, 0), (CCPR1L, 0)]
                \<and> coasted (pins_of ((TMR1_tick ^^ Suc n) s1))
                \<and> duty_register ((TMR1_tick ^^ Suc n) s1) = 0
                \<and> (\<forall>e \<in> set (new_events s1 ((TMR1_tick ^^ n) s1)). duty_write e \<longrightarrow> snd e = 0)"
    by blast
  have n3: "(3 :: nat) = Suc 2" by simp
  from b [rule_format, of 2] have
    "duty_register ((TMR1_tick ^^ 3) s1) = 0 \<and> coasted (pins_of ((TMR1_tick ^^ 3) s1))
     \<and> filter duty_write (new_events ((TMR1_tick ^^ 2) s1) ((TMR1_tick ^^ 3) s1))
          = [(CCPR1H, 0), (CCPR1L, 0)]"
    unfolding n3 by blast
  with a h show ?thesis by blast
qed

text \<open>
  The scale is written by \<open>lra_set_amp\<close> only: a call of the handler leaves it as it
  is unless the call is the commit of a sine command.
\<close>

lemmas uart_defs = UART_processing_def UART_Write_def UART_stop_def UART_start_sine_def
  UART_start_square_def coast_both_def set_pwm10_def lra_set_amp_def t1_apply_reload_def Let_def

lemma UART_processing_scale:
  assumes "UART_processing s = Some s'"
  shows "scale s' = scale s
       \<or> (drop_bit 7 (buffer s) \<noteq> 0 \<and> state s \<noteq> 0 \<and> state s \<noteq> 1
          \<and> drop_bit 3 (buffer s AND 0x7F) AND 1 \<noteq> 0
          \<and> scale s' = amp_scale 799 (duty_pct_of (duty5_raw s)))"
  using assms
  by (auto simp add: uart_defs pwm_top_def split: option.splits if_splits)

lemma ISR_scale:
  assumes "ISR s = Some s'"
  shows "scale s' = scale s
       \<or> (regs s RCIF \<noteq> 0 \<and> regs s FERR = 0 \<and> drop_bit 7 (regs s RC1REG) \<noteq> 0
          \<and> state s \<noteq> 0 \<and> state s \<noteq> 1
          \<and> drop_bit 3 (regs s RC1REG AND 0x7F) AND 1 \<noteq> 0
          \<and> scale s' = amp_scale 799 (duty_pct_of (duty5_raw s)))"
proof (cases "regs s RCIF \<noteq> 0")
  case True
  show ?thesis
  proof (cases "regs s FERR \<noteq> 0")
    case f: True
    with True assms show ?thesis
      by (auto simp add: ISR_def RX_branch_def Let_def split: if_splits)
  next
    case f: False
    let ?s1 = "if regs s OERR \<noteq> 0 then run [wr CREN 0, wr CREN 1] s else s"
    let ?u = "(wr RCIF 0 ?s1)\<lparr>buffer := regs ?s1 RC1REG\<rparr>"
    from True f assms have u: "UART_processing ?u = Some s'"
      by (auto simp add: ISR_def RX_branch_def Let_def split: if_splits)
    have e: "scale ?u = scale s" "buffer ?u = regs s RC1REG" "state ?u = state s"
      "duty5_raw ?u = duty5_raw s"
      by auto
    from UART_processing_scale [OF u] True f show ?thesis
      unfolding e by blast
  qed
next
  case False
  with assms show ?thesis
    by (auto simp add: ISR_def TMR2_tick_def sine_tick_frame Let_def split: if_splits)
qed

lemma sine_tick_duty_writes:
  assumes "wave_mode s \<noteq> 0" and "scale s \<noteq> 0"
  shows "filter duty_write (new_events s (TMR1_tick s)) =
     (let f = duty_fwd_of (scale s) (sine_sample (next_phase (phase_idx s)));
          tp = pwm_top s;
          v = tp - (if f \<ge> tp then tp else f)
      in [(CCPR1H, ucast (drop_bit 2 v)), (CCPR1L, ucast (push_bit 6 (v AND 3)))])"
  unfolding sine_tick_events [OF assms(1)] using assms(2)
  by (simp add: duty_write_def coast_events_def route_events_def Let_def)

lemmas isr_defs = ISR_def RX_branch_def rx_byte_def timer1_overflow_def timer2_overflow_def

text \<open>
  A sine START with duty code 1 received by an idle node, followed by the first Timer1
  tick: the scale is 24, the sample 12, the forward duty 2 and the duty register 797.
\<close>

lemma sine_code1_run:
  "map_option scale sine_code1_first_tick = Some 24
   \<and> map_option phase_idx sine_code1_first_tick = Some 1
   \<and> sine_sample 1 = 12
   \<and> duty_fwd_of 24 12 = 2
   \<and> map_option pwm_top sine_code1_first_tick = Some 799
   \<and> map_option duty_register sine_code1_first_tick = Some 797"
  by (simp add: sine_code1_first_tick_def isr_defs uart_defs tick_defs idle_node_def
      duty_pct_of_def amp_scale_def pwm_top_def T1_RELOAD_def wr_def next_phase_def
      SINE_LEN_def sine_sample_def SINE64_8_def duty_fwd_of_def
      duty_register_def word_le_nat_alt)

section \<open>Address bytes\<close>

lemma low6: 
  assumes "(x :: u8) \<le> 63"
  shows "x AND 0x3F = x"
proof -
  from assms have "x < 2 ^ 6" by (simp add: word_less_nat_alt word_le_nat_alt)
  then have "x AND mask 6 = x" by (rule less_mask_eq)
  then show ?thesis by (simp add: mask_eq_exp_minus_1)
qed

lemma bit_addr_or_start: "0 < m \<Longrightarrow> bit (push_bit m (a::u8) OR (st AND 1)) n \<longleftrightarrow> (if n = 0 then bit st 0 else m \<le> n \<and> n < 8 \<and> bit a (n - m))"
  by (auto simp add: bit_simps)

lemma bit_low6: "(x :: u8) \<le> 63 \<Longrightarrow> bit x n \<Longrightarrow> n < 6"
proof -
  assume a: "x \<le> 63" and b: "bit x n"
  from low6 [OF a] have e: "x AND mask 6 = x" by (simp add: mask_eq_exp_minus_1)
  from b have "bit (x AND mask 6) n" by (simp only: e)
  then show "n < 6" by (simp add: bit_simps)
qed

lemma make_addr_byte_fields:
  assumes "a \<le> 63"
  shows "drop_bit 7 (make_addr_byte st a) = 0"
    and "drop_bit 1 (make_addr_byte st a) AND 0x3F = a"
    and "make_addr_byte st a AND 1 = st AND 1"
proof -
  have a: "a AND 0x3F = a" by (rule low6 [OF assms])
  have m: "(0x3F :: u8) = mask 6" by (simp add: mask_eq_exp_minus_1)
  have b: "bit (make_addr_byte st a) n \<longleftrightarrow> (if n = 0 then bit st 0 else n < 8 \<and> bit a (n - 1))" for n
    unfolding make_addr_byte_def a using bit_addr_or_start [of 1 a st n] by auto
  show "drop_bit 7 (make_addr_byte st a) = 0"
    by (rule bit_eqI) (auto simp add: bit_drop_bit_eq b dest: bit_low6 [OF assms])
  show "drop_bit 1 (make_addr_byte st a) AND 0x3F = a"
    unfolding m
    by (rule bit_eqI) (auto simp add: bit_and_iff bit_mask_iff bit_drop_bit_eq b dest: bit_low6 [OF assms] bit_imp_le_length)
  show "make_addr_byte st a AND 1 = st AND 1"
    by (rule bit_eqI) (auto simp add: bit_and_iff bit_1_iff b)
qed

lemma wait_TRMT_ready:
  "True \<in> set ts \<Longrightarrow> \<exists>ts'. wait_TRMT ts = Some ts'"
  by (induction ts) auto

lemma wait_TRMT_never:
  "True \<notin> set ts \<Longrightarrow> wait_TRMT ts = None"
  by (induction ts) auto

lemma pred_addr:
  assumes "(k :: u8) \<le> 63" and "k \<noteq> 0"
  shows "k - 1 \<le> 63"
proof -
  from assms(2) have "unat (k - 1) = unat k - 1" by (simp add: unat_minus_one)
  with assms(1) show ?thesis by (simp add: word_le_nat_alt)
qed

lemma forward_blocks:
  assumes "drop_bit 7 (buffer s) = 0" and "drop_bit 1 (buffer s) AND 0x3F \<noteq> 0"
    and "True \<notin> set (trmt s)"
  shows "UART_processing s = None"
  using assms by (simp add: UART_processing_def UART_Write_def Let_def wait_TRMT_never)

text \<open>
  C5 (amended). An address byte carrying a chain address \<open>k > 0\<close> is answered, once the
  transmitter reports idle, by exactly one byte downstream: an address byte carrying
  \<open>k - 1\<close> and the same start flag. The waveform, duty code, duty percentage and
  frequency index are unchanged; \<open>state\<close> is set to 0, so the node is not addressed
  afterwards whatever it was before.
\<close>

theorem forward_address_decrement:
  assumes "drop_bit 7 (buffer s) = 0" and "drop_bit 1 (buffer s) AND 0x3F \<noteq> 0"
    and "True \<in> set (trmt s)"
  shows "\<exists>s' b. UART_processing s = Some s'
           \<and> new_events s s' = [(TX1REG, b)]
           \<and> drop_bit 7 b = 0
           \<and> drop_bit 1 b AND 0x3F = (drop_bit 1 (buffer s) AND 0x3F) - 1
           \<and> b AND 1 = buffer s AND 1
           \<and> wave_mode s' = wave_mode s \<and> duty5_raw s' = duty5_raw s
           \<and> duty_pct s' = duty_pct s \<and> freq_index s' = freq_index s
           \<and> state s' = 0 \<and> \<not> addressed s'"
proof -
  let ?k = "drop_bit 1 (buffer s) AND 0x3F"
  let ?b = "make_addr_byte (buffer s AND 1) (?k - 1)"
  have k: "?k \<le> 63" by (rule word_and_le1)
  have p: "?k - 1 \<le> 63" by (rule pred_addr [OF k assms(2)])
  from wait_TRMT_ready [OF assms(3)] obtain ts where w: "wait_TRMT (trmt s) = Some ts" ..
  let ?s' = "(wr TX1REG ?b (s\<lparr>trmt := ts\<rparr>))\<lparr>state := 0\<rparr>"
  have u: "UART_processing s = Some ?s'"
    using assms(1,2) w by (simp add: UART_processing_def UART_Write_def Let_def)
  have e: "new_events s ?s' = [(TX1REG, ?b)]"
    by (simp add: new_events_def)
  have f: "wave_mode ?s' = wave_mode s" "duty5_raw ?s' = duty5_raw s"
    "duty_pct ?s' = duty_pct s" "freq_index ?s' = freq_index s" "state ?s' = 0"
    "\<not> addressed ?s'"
    by (simp_all add: addressed_def)
  have "(buffer s AND 1) AND 1 = buffer s AND 1" by (simp add: and.assoc)
  with make_addr_byte_fields [OF p, of "buffer s AND 1"]
  have d: "drop_bit 7 ?b = 0" "drop_bit 1 ?b AND 0x3F = ?k - 1" "?b AND 1 = buffer s AND 1"
    by simp_all
  from u e f d show ?thesis by blast
qed

theorem forward_address_decrement_witness:
  "drop_bit 7 (buffer (idle_node\<lparr>buffer := 0x05\<rparr>)) = 0
   \<and> drop_bit 1 (buffer (idle_node\<lparr>buffer := 0x05\<rparr>)) AND 0x3F \<noteq> 0
   \<and> True \<in> set (trmt (idle_node\<lparr>buffer := 0x05\<rparr>))
   \<and> (\<exists>s'. UART_processing (idle_node\<lparr>buffer := 0x05\<rparr>) = Some s'
         \<and> new_events (idle_node\<lparr>buffer := 0x05\<rparr>) s' = [(TX1REG, 0x03)]
         \<and> state s' = 0 \<and> duty_pct s' = 0)"
proof -
  let ?s = "idle_node\<lparr>buffer := 0x05\<rparr>"
  have h: "drop_bit 7 (buffer ?s) = 0" "drop_bit 1 (buffer ?s) AND 0x3F \<noteq> 0"
    "True \<in> set (trmt ?s)"
    by (simp_all add: idle_node_def)
  have v: "UART_processing ?s = Some s' \<Longrightarrow> new_events ?s s' = [(TX1REG, 0x03)]" for s'
    by (auto simp add: UART_processing_def UART_Write_def Let_def idle_node_def
        make_addr_byte_def new_events_def)
  have z: "duty_pct ?s = 0" by (simp add: idle_node_def)
  from forward_address_decrement [OF h] obtain s' b where
    "UART_processing ?s = Some s'" "state s' = 0" "duty_pct s' = duty_pct ?s" by blast
  with v [of s'] z h show ?thesis by auto
qed

text \<open>
  A node that has taken a START for itself (\<open>state = 1\<close>, addressed) and then receives an
  address byte for a node further down forwards it and is no longer addressed: the
  addressed condition is not preserved by forwarding.
\<close>

theorem forward_clears_addressed:
  "map_option addressed (isr_run [rx_byte 0x01] idle_node) = Some True
   \<and> map_option addressed start_then_forward = Some False
   \<and> map_option (filter tx_write \<circ> trace) start_then_forward = Some [(TX1REG, 0x01)]"
  by (simp add: start_then_forward_def isr_defs UART_processing_def UART_Write_def Let_def
      idle_node_def make_addr_byte_def tx_write_def addressed_def wr_def)

section \<open>Receive faults\<close>

lemma UART_processing_extends:
  assumes "UART_processing s = Some s'"
  shows "\<exists>es. trace s' = trace s @ es" and "regs s' CREN = regs s CREN"
  using assms
  by (auto simp add: uart_defs wr_def split: option.splits if_splits)

lemma UART_processing_returns:
  assumes "True \<in> set (trmt s)"
  shows "\<exists>s'. UART_processing s = Some s'"
proof -
  from wait_TRMT_ready [OF assms] obtain ts where "wait_TRMT (trmt s) = Some ts" ..
  then show ?thesis
    by (simp add: UART_processing_def UART_Write_def Let_def)
qed

lemma overrun_returns:
  assumes "regs s RCIF \<noteq> 0" and "regs s OERR \<noteq> 0" and "True \<in> set (trmt s)"
  shows "\<exists>s'. ISR s = Some s'"
proof (cases "regs s FERR \<noteq> 0")
  case True
  with assms show ?thesis by (simp add: ISR_def RX_branch_def Let_def)
next
  case False
  let ?s1 = "run [wr CREN 0, wr CREN 1] s"
  let ?u = "(wr RCIF 0 ?s1)\<lparr>buffer := regs ?s1 RC1REG\<rparr>"
  have "True \<in> set (trmt ?u)" using assms(3) by simp
  from UART_processing_returns [OF this] obtain s' where "UART_processing ?u = Some s'" ..
  with assms False show ?thesis by (simp add: ISR_def RX_branch_def Let_def)
qed

text \<open>
  C9. When a byte arrives with a framing error the handler reads and drops it without
  running \<open>UART_processing\<close>: \<open>state\<close>, the addressed condition, \<open>buffer\<close> and every
  other global are unchanged and nothing is sent. When the receiver reports an overrun the
  handler resets it (\<open>CREN\<close> off, then on) before anything else, and returns as soon as
  the transmitter, should the byte need relaying, reports idle. In both cases the handler
  returns normally; it has no error result.
\<close>

theorem rx_faults_recovered_locally:
  assumes "regs s RCIF \<noteq> 0"
  shows "(regs s FERR \<noteq> 0 \<longrightarrow>
           (\<exists>s'. ISR s = Some s'
              \<and> state s' = state s \<and> addressed s' = addressed s \<and> buffer s' = buffer s
              \<and> s'\<lparr>regs := regs s, trace := trace s\<rparr> = s
              \<and> new_events s s' =
                   (if regs s OERR \<noteq> 0 then [(CREN, 0), (CREN, 1)] else []) @ [(RCIF, 0)]
              \<and> filter tx_write (new_events s s') = []))
       \<and> (regs s OERR \<noteq> 0 \<and> True \<in> set (trmt s) \<longrightarrow>
           (\<exists>s'. ISR s = Some s'
              \<and> take 2 (new_events s s') = [(CREN, 0), (CREN, 1)] \<and> regs s' CREN = 1))
       \<and> (regs s OERR \<noteq> 0 \<longrightarrow>
           (\<forall>s'. ISR s = Some s' \<longrightarrow>
              take 2 (new_events s s') = [(CREN, 0), (CREN, 1)] \<and> regs s' CREN = 1))"
proof -
  have A: "\<exists>s'. ISR s = Some s'
              \<and> state s' = state s \<and> addressed s' = addressed s \<and> buffer s' = buffer s
              \<and> s'\<lparr>regs := regs s, trace := trace s\<rparr> = s
              \<and> new_events s s' =
                   (if regs s OERR \<noteq> 0 then [(CREN, 0), (CREN, 1)] else []) @ [(RCIF, 0)]
              \<and> filter tx_write (new_events s s') = []"
    if f: "regs s FERR \<noteq> 0"
    using assms f
    by (simp add: ISR_def RX_branch_def Let_def addressed_def new_events_def tx_write_def wr_def)
  have B: "take 2 (new_events s s') = [(CREN, 0), (CREN, 1)] \<and> regs s' CREN = 1"
    if o: "regs s OERR \<noteq> 0" and r: "ISR s = Some s'" for s'
  proof (cases "regs s FERR \<noteq> 0")
    case True
    with assms o r show ?thesis
      by (auto simp add: ISR_def RX_branch_def Let_def new_events_def)
  next
    case False
    let ?s1 = "run [wr CREN 0, wr CREN 1] s"
    let ?u = "(wr RCIF 0 ?s1)\<lparr>buffer := regs ?s1 RC1REG\<rparr>"
    from assms o r False have u: "UART_processing ?u = Some s'"
      by (simp add: ISR_def RX_branch_def Let_def)
    from UART_processing_extends [OF u] obtain es where
      "trace s' = trace ?u @ es" and c: "regs s' CREN = regs ?u CREN" by blast
    then have "trace s' = trace s @ [(CREN, 0), (CREN, 1), (RCIF, 0)] @ es" by simp
    then have "take 2 (new_events s s') = [(CREN, 0), (CREN, 1)]"
      by (simp add: new_events_def)
    moreover from c have "regs s' CREN = 1" by simp
    ultimately show ?thesis by blast
  qed
  have C: "\<exists>s'. ISR s = Some s'
              \<and> take 2 (new_events s s') = [(CREN, 0), (CREN, 1)] \<and> regs s' CREN = 1"
    if o: "regs s OERR \<noteq> 0" and r: "True \<in> set (trmt s)"
  proof -
    from overrun_returns [OF assms o r] obtain s' where "ISR s = Some s'" ..
    with B [OF o this] show ?thesis by blast
  qed
  from A B C show ?thesis by blast
qed

theorem rx_faults_recovered_locally_witness:
  "regs (rx_byte 0x8B (idle_node\<lparr>state := 2, regs := (regs idle_node)(FERR := 1, OERR := 1)\<rparr>)) RCIF \<noteq> 0
   \<and> (\<exists>s'. ISR (rx_byte 0x8B (idle_node\<lparr>state := 2, regs := (regs idle_node)(FERR := 1, OERR := 1)\<rparr>)) = Some s'
         \<and> state s' = 2 \<and> addressed s'
         \<and> new_events (rx_byte 0x8B (idle_node\<lparr>state := 2, regs := (regs idle_node)(FERR := 1, OERR := 1)\<rparr>)) s'
             = [(CREN, 0), (CREN, 1), (RCIF, 0)])
   \<and> regs (rx_byte 0x05 (idle_node\<lparr>regs := (regs idle_node)(OERR := 1)\<rparr>)) OERR \<noteq> 0
   \<and> True \<in> set (trmt (rx_byte 0x05 (idle_node\<lparr>regs := (regs idle_node)(OERR := 1)\<rparr>)))
   \<and> (\<exists>s'. ISR (rx_byte 0x05 (idle_node\<lparr>regs := (regs idle_node)(OERR := 1)\<rparr>)) = Some s'
         \<and> take 2 (new_events (rx_byte 0x05 (idle_node\<lparr>regs := (regs idle_node)(OERR := 1)\<rparr>)) s')
             = [(CREN, 0), (CREN, 1)]
         \<and> regs s' CREN = 1)"
proof -
  let ?a = "rx_byte 0x8B (idle_node\<lparr>state := 2, regs := (regs idle_node)(FERR := 1, OERR := 1)\<rparr>)"
  let ?b = "rx_byte 0x05 (idle_node\<lparr>regs := (regs idle_node)(OERR := 1)\<rparr>)"
  have ha: "regs ?a RCIF \<noteq> 0" "regs ?a FERR \<noteq> 0" "regs ?a OERR \<noteq> 0" "state ?a = 2"
    by (simp_all add: rx_byte_def idle_node_def)
  have hb: "regs ?b RCIF \<noteq> 0" "regs ?b OERR \<noteq> 0" "True \<in> set (trmt ?b)"
    by (simp_all add: rx_byte_def idle_node_def)
  from rx_faults_recovered_locally [OF ha(1)] ha
  have A: "\<exists>s'. ISR ?a = Some s' \<and> state s' = 2 \<and> addressed s'
         \<and> new_events ?a s' = [(CREN, 0), (CREN, 1), (RCIF, 0)]"
    by (auto simp add: addressed_def)
  from rx_faults_recovered_locally [OF hb(1)] hb
  have B: "\<exists>s'. ISR ?b = Some s' \<and> take 2 (new_events ?b s') = [(CREN, 0), (CREN, 1)]
         \<and> regs s' CREN = 1"
    by blast
  from ha(1) hb(2,3) A B show ?thesis by blast
qed

section \<open>STOP\<close>

lemma UART_stop_trace: "trace (UART_stop s) = trace s @ stop_events"
  by (simp add: UART_stop_def stop_events_def coast_events_def coast_both_def set_pwm10_def)

lemma UART_stop_regs:
  "regs (UART_stop s) =
     (regs s)(TMR1ON := 0, TMR1IE := 0, LATA1 := 0, LATA0 := 0, CCPR1H := 0, CCPR1L := 0,
              TMR2ON := 0, TMR2IE := 0, RA1PPS := 8, RA0PPS := 9, CWG1EN := 1)"
  by (simp add: UART_stop_def coast_both_def set_pwm10_def fun_eq_iff)

lemma UART_stop_globals:
  "UART_stop s\<lparr>regs := f, trace := t\<rparr> =
     s\<lparr>regs := f, trace := t, duty_pct := 0, cwg_flag := 0, duty_flag := 0, square_tick := 0,
       uart_led_flag := 1, duty5_raw := 0, state := 0\<rparr>"
  by (simp add: UART_stop_def coast_both_def set_pwm10_def wr_def)

lemma UART_stop_fields:
  "duty_pct (UART_stop s) = 0" "duty5_raw (UART_stop s) = 0" "state (UART_stop s) = 0"
  "cwg_flag (UART_stop s) = 0" "duty_flag (UART_stop s) = 0" "square_tick (UART_stop s) = 0"
  "uart_led_flag (UART_stop s) = 1"
  "phase_idx (UART_stop s) = phase_idx s" "last_sign (UART_stop s) = last_sign s"
  "scale (UART_stop s) = scale s" "t1_reload (UART_stop s) = t1_reload s"
  "index200 (UART_stop s) = index200 s" "wave_mode (UART_stop s) = wave_mode s"
  "freq_index (UART_stop s) = freq_index s"
  by (simp_all add: UART_stop_def coast_both_def set_pwm10_def)

lemma UART_stop_view:
  "stop_view (UART_stop s) = ((0, 0, 0, False), 0, (9, 8, 0, 0), [0, 0, 0, 0, 1], [0, 0, 0])"
  by (simp add: stop_view_def UART_stop_fields UART_stop_regs addressed_def duty_register_def
      pins_of_def)

lemma stop_byte_processing:
  assumes "drop_bit 7 (buffer s) = 0" and "drop_bit 1 (buffer s) AND 0x3F = 0"
    and "buffer s AND 1 = 0"
  shows "UART_processing s = Some (UART_stop s)"
  using assms by (simp add: UART_processing_def Let_def)

text \<open>
  C2 (amended). An addressed STOP byte (bit 7 clear, address 0, start flag 0) has these
  effects, in this order, before \<open>UART_processing\<close> returns: Timer1 off and its
  interrupt disabled; both legs coasted and the duty register zeroed; Timer2 off and its
  interrupt disabled. These are the first ten register writes of the routine, and after
  the sixth the pins are in the coast state. On return both timers are stopped with
  their interrupts disabled, the duty register is 0, \<open>duty_pct\<close> and the duty code
  are 0, \<open>state\<close> is 0 (Idle, not addressed) and the latches of the square engine are
  cleared; the phase, sign and scale of the sine engine and the window position are not
  cleared.
\<close>

theorem stop_effects_in_program_order:
  assumes "drop_bit 7 (buffer s) = 0" and "drop_bit 1 (buffer s) AND 0x3F = 0"
    and "buffer s AND 1 = 0"
  shows "\<exists>s'. UART_processing s = Some s'
          \<and> take 10 (new_events s s') = stop_disarm_events
          \<and> coasted (foldl pin_step (pins_of s) (take 6 (new_events s s')))
          \<and> regs s' TMR1ON = 0 \<and> regs s' TMR1IE = 0
          \<and> regs s' TMR2ON = 0 \<and> regs s' TMR2IE = 0
          \<and> duty_register s' = 0
          \<and> duty_pct s' = 0 \<and> duty5_raw s' = 0 \<and> state s' = 0 \<and> \<not> addressed s'
          \<and> cwg_flag s' = 0 \<and> duty_flag s' = 0 \<and> square_tick s' = 0
          \<and> phase_idx s' = phase_idx s \<and> last_sign s' = last_sign s
          \<and> scale s' = scale s \<and> index200 s' = index200 s"
proof -
  have e: "new_events s (UART_stop s) = stop_events"
    by (simp add: new_events_def UART_stop_trace)
  have "take 10 stop_events = stop_disarm_events"
    by (simp add: stop_events_def stop_disarm_events_def coast_events_def)
  moreover have "coasted (foldl pin_step (pins_of s) (take 6 stop_events))"
    by (cases "pins_of s") (simp add: stop_events_def coast_events_def coasted_def)
  moreover have "duty_register (UART_stop s) = 0" "\<not> addressed (UART_stop s)"
    using UART_stop_view [of s] by (simp_all add: stop_view_def)
  ultimately show ?thesis
    using stop_byte_processing [OF assms]
    by (simp add: e UART_stop_fields UART_stop_regs)
qed

theorem stop_effects_in_program_order_witness:
  "drop_bit 7 (buffer (sine_armed\<lparr>buffer := 0\<rparr>)) = 0
   \<and> drop_bit 1 (buffer (sine_armed\<lparr>buffer := 0\<rparr>)) AND 0x3F = 0
   \<and> buffer (sine_armed\<lparr>buffer := 0\<rparr>) AND 1 = 0
   \<and> (\<exists>s'. UART_processing (sine_armed\<lparr>buffer := 0\<rparr>) = Some s'
         \<and> take 10 (new_events (sine_armed\<lparr>buffer := 0\<rparr>) s') =
             [(TMR1ON, 0), (TMR1IE, 0), (RA1PPS, 0), (LATA1, 0), (RA0PPS, 0), (LATA0, 0),
              (CCPR1H, 0), (CCPR1L, 0), (TMR2ON, 0), (TMR2IE, 0)]
         \<and> regs s' TMR1IE = 0 \<and> regs s' TMR2IE = 0 \<and> duty_register s' = 0
         \<and> duty_pct s' = 0 \<and> state s' = 0 \<and> scale s' = 767)"
proof -
  let ?s = "sine_armed\<lparr>buffer := 0\<rparr>"
  have h: "drop_bit 7 (buffer ?s) = 0" "drop_bit 1 (buffer ?s) AND 0x3F = 0"
    "buffer ?s AND 1 = 0"
    by simp_all
  have v: "scale ?s = 767" by (simp add: sine_armed_def)
  from stop_effects_in_program_order [OF h] v h show ?thesis
    by (auto simp add: stop_disarm_events_def coast_events_def)
qed

text \<open>
  On a node with the sine engine armed, the log of a STOP does not contain the effects in
  the order the specification lists them: the coast and the zero duty come before the
  square interrupt is disabled, not after. The scale of the sine engine is still there
  after the STOP.
\<close>

theorem stop_coasts_before_square_interrupt_off:
  "map_option (new_events sine_armed) stop_on_sine
     = Some [(RCIF, 0), (TMR1ON, 0), (TMR1IE, 0), (RA1PPS, 0), (LATA1, 0), (RA0PPS, 0),
             (LATA0, 0), (CCPR1H, 0), (CCPR1L, 0), (TMR2ON, 0), (TMR2IE, 0),
             (RA1PPS, 8), (RA0PPS, 9), (CWG1EN, 1)]
   \<and> map_option (in_order specified_stop_order \<circ> new_events sine_armed) stop_on_sine
       = Some False
   \<and> map_option (in_order (coast_events @ [(CCPR1H, 0), (CCPR1L, 0), (TMR2IE, 0)])
                   \<circ> new_events sine_armed) stop_on_sine
       = Some True
   \<and> map_option scale stop_on_sine = Some 767"
  by (simp add: stop_on_sine_def isr_defs UART_processing_def Let_def sine_armed_def
      idle_node_def new_events_def UART_stop_trace stop_events_def coast_events_def
      specified_stop_order_def UART_stop_fields)

text \<open>
  On everything the STOP branch writes, the values after it do not depend on the state
  before it; the polarity bits and the pin directions are not among them.
\<close>

lemma stop_written_values_agree:
  "\<exists>a b. UART_processing (s1\<lparr>buffer := 0\<rparr>) = Some a
       \<and> UART_processing (s2\<lparr>buffer := 0\<rparr>) = Some b
       \<and> stop_view a = stop_view b
       \<and> in_order coast_events (new_events (s1\<lparr>buffer := 0\<rparr>) a)
       \<and> regs a POLA = regs s1 POLA \<and> regs a POLB = regs s1 POLB
       \<and> regs a TRISA0 = regs s1 TRISA0 \<and> regs a TRISA1 = regs s1 TRISA1"
proof -
  have p: "UART_processing (s\<lparr>buffer := 0\<rparr>) = Some (UART_stop (s\<lparr>buffer := 0\<rparr>))" for s
    by (rule stop_byte_processing) simp_all
  have c: "in_order coast_events (new_events (s1\<lparr>buffer := 0\<rparr>) (UART_stop (s1\<lparr>buffer := 0\<rparr>)))"
    by (simp add: new_events_def UART_stop_trace stop_events_def coast_events_def)
  show ?thesis
    using p [of s1] p [of s2] c by (simp add: UART_stop_view UART_stop_regs)
qed

text \<open>
  C3. A STOP is to end in one terminal state whatever was armed before: command state
  reset, bridge coasted, duty register zero, both timing sources off. The STOP branch
  coasts the bridge and then attaches both legs to the CWG outputs again and enables the
  CWG, without writing the polarity bits or the pin directions. So after a STOP the legs
  are not in the coast state, and the polarity and direction bits after a STOP on an idle
  node differ from those after a STOP on a node whose square engine was armed.
\<close>

theorem stop_leaves_legs_on_cwg:
  "map_option pins_of stop_on_idle = Some (9, 8, 0, 0)
   \<and> map_option (coasted \<circ> pins_of) stop_on_idle = Some False
   \<and> map_option (rd CWG1EN) stop_on_idle = Some 1
   \<and> map_option (rd POLA) stop_on_idle = Some 0
   \<and> map_option (rd POLA) stop_on_square = Some 1
   \<and> map_option (rd TRISA0) stop_on_idle = Some 0
   \<and> map_option (rd TRISA0) stop_on_square = Some 1"
  by (simp add: stop_on_idle_def stop_on_square_def isr_defs UART_processing_def Let_def
      square_armed_def idle_node_def UART_stop_regs pins_of_def coasted_def rd_def)

section \<open>The duty written by a sine tick\<close>

lemma pwm10_roundtrip:
  fixes v :: u16
  assumes "v < 1024"
  shows "push_bit 2 (ucast (ucast (drop_bit 2 v) :: u8) :: u16)
           OR drop_bit 6 (ucast (ucast (push_bit 6 (v AND 3)) :: u8) :: u16) = v"
    (is "?w = v")
proof (rule bit_eqI)
  fix n :: nat
  from assms have "v < 2 ^ 10" by simp
  then have m: "v AND mask 10 = v" by (rule less_mask_eq)
  have hi: "k < 10" if "bit v k" for k
  proof -
    from that have "bit (v AND mask 10) k" by (simp only: m)
    then show ?thesis by (simp add: bit_simps)
  qed
  consider "n = 0" | "n = 1" | "2 \<le> n" by arith
  then show "bit ?w n \<longleftrightarrow> bit v n"
  proof cases
    case 1
    then show ?thesis by (simp add: bit_simps)
  next
    case 2
    then show ?thesis by (simp add: bit_simps)
  next
    case 3
    then have e: "Suc (Suc (n - 2)) = n" by simp
    from 3 show ?thesis
      using hi [of n] by (auto simp add: bit_simps e dest: bit_imp_le_length)
  qed
qed

lemma duty_register_set_pwm10:
  assumes "v < 1024"
  shows "duty_register (set_pwm10 v s) = v"
  using pwm10_roundtrip [OF assms] by (simp add: duty_register_def set_pwm10_def)

lemma wire_scales_values:
  "wire_scales = [0, 24, 48, 72, 96, 120, 144, 168, 200, 224, 248, 272, 296, 320, 344, 368,
                  400, 423, 447, 471, 495, 519, 543, 567, 599, 623, 647, 671, 695, 719, 743, 767]"
  by (simp add: wire_scales_def amp_scale_def duty_pct_of_def upt_rec)

lemma wire_scale_bounds:
  assumes "x \<in> set wire_scales" and "x \<noteq> 0"
  shows "24 \<le> unat x \<and> unat x \<le> 767"
  using assms unfolding wire_scales_values by auto

lemma wire_scale_member:
  assumes "d \<le> 31"
  shows "amp_scale 799 (duty_pct_of d) \<in> set wire_scales"
proof -
  from assms have "unat d < 32" by (simp add: word_le_nat_alt)
  then have "amp_scale 799 (duty_pct_of (of_nat (unat d))) \<in> set wire_scales"
    unfolding wire_scales_def by (simp only: set_map set_upt) (rule imageI, simp)
  then show ?thesis by simp
qed

lemma sample_magnitude:
  "sine_sample (next_phase p) = 0
   \<or> (12 \<le> \<bar>sine_sample (next_phase p)\<bar> \<and> \<bar>sine_sample (next_phase p)\<bar> \<le> 127)"
proof -
  have "\<forall>x \<in> set SINE64_8. x = 0 \<or> (12 \<le> \<bar>x\<bar> \<and> \<bar>x\<bar> \<le> 127)"
    by (simp add: SINE64_8_def)
  moreover have "sine_sample (next_phase p) \<in> set SINE64_8"
    unfolding sine_sample_def by (rule nth_mem) (rule next_phase_in_table)
  ultimately show ?thesis by blast
qed

lemma duty_fwd_nat:
  fixes m :: nat and sc :: u16
  assumes "m \<le> 127"
  shows "unat (ucast (drop_bit 7 ((ucast sc :: u32) * ucast (of_nat m :: u16) + 64)) :: u16)
       = (unat sc * m + 64) div 128"
proof -
  have sc: "unat sc < 65536" using unsigned_less [of sc, where 'a = nat] by simp
  have mag: "unat (of_nat m :: u16) = m"
    using assms by (simp add: unat_of_nat)
  have um: "unat (ucast (of_nat m :: u16) :: u32) = m"
    using assms by (simp add: unsigned_ucast_eq mag take_bit_nat_eq_self_iff)
  have us: "unat (ucast sc :: u32) = unat sc"
    using sc by (simp add: unsigned_ucast_eq take_bit_nat_eq_self_iff)
  have p: "unat sc * m \<le> 65535 * 127"
    using sc assms by (intro mult_mono) simp_all
  define x :: u32 where "x = ucast sc"
  define y :: u32 where "y = ucast (of_nat m :: u16)"
  have pr: "unat (x * y) = unat sc * m"
    using p by (simp add: unat_word_ariths(2) x_def y_def us um)
  have ad: "unat (x * y + 64) = unat sc * m + 64"
    using p by (simp add: unat_word_ariths(1) pr)
  have dv: "unat (drop_bit 7 (x * y + 64)) = (unat sc * m + 64) div 128"
    by (simp add: drop_bit_eq_div unat_div ad)
  have "(unat sc * m + 64) div 128 < 65536" using p by simp
  then have "unat (ucast (drop_bit 7 (x * y + 64)) :: u16) = (unat sc * m + 64) div 128"
    by (simp add: unsigned_ucast_eq dv take_bit_nat_eq_self_iff)
  then show ?thesis by (simp only: x_def y_def)
qed

lemma unat_duty_fwd_of:
  assumes "\<bar>s8\<bar> \<le> 127"
  shows "unat (duty_fwd_of sc s8) = (unat sc * nat \<bar>s8\<bar> + 64) div 128"
proof -
  from assms have m: "nat \<bar>s8\<bar> \<le> 127" by simp
  have "(if s8 \<ge> 0 then s8 else - s8) = \<bar>s8\<bar>" by simp
  moreover have "(word_of_int \<bar>s8\<bar> :: u16) = of_nat (nat \<bar>s8\<bar>)"
  proof -
    have "(of_nat (nat \<bar>s8\<bar>) :: u16) = word_of_int (int (nat \<bar>s8\<bar>))"
      by (simp only: of_int_of_nat_eq)
    then show ?thesis by simp
  qed
  ultimately have "duty_fwd_of sc s8
      = ucast (drop_bit 7 ((ucast sc :: u32) * ucast (of_nat (nat \<bar>s8\<bar>) :: u16) + 64))"
    by (simp only: duty_fwd_of_def Let_def)
  then show ?thesis by (simp only: duty_fwd_nat [OF m])
qed

lemma unat_pwm_top:
  "unat (pwm_top s) = 4 * (unat (regs s PR2) + 1) - 1"
proof -
  have r: "unat (regs s PR2) < 256" by (rule unat_u8_less)
  define x :: u16 where "x = ucast (regs s PR2) + 1"
  have c: "unat (ucast (regs s PR2) :: u16) = unat (regs s PR2)"
    using r by (simp add: unsigned_ucast_eq take_bit_nat_eq_self_iff)
  have a: "unat x = unat (regs s PR2) + 1"
    using r by (simp add: x_def unat_word_ariths(1) c)
  have b: "unat (4 * x) = 4 * (unat (regs s PR2) + 1)"
    using r by (simp add: unat_word_ariths(2) a)
  have "(1 :: u16) \<le> 4 * x"
    using b by (simp add: word_le_nat_alt)
  then have "unat (4 * x - 1) = unat (4 * x) - unat (1 :: u16)"
    by (rule unat_sub)
  then have "unat (4 * x - 1) = 4 * (unat (regs s PR2) + 1) - 1"
    by (simp add: b)
  then show ?thesis by (simp only: pwm_top_def x_def)
qed

lemma pwm_top_bounds: "3 \<le> unat (pwm_top s)" "unat (pwm_top s) \<le> 1023"
  using unat_u8_less [of "regs s PR2"] by (simp_all add: unat_pwm_top)

lemma tick_duty_fwd_le: "tick_duty_fwd s \<le> pwm_top s"
  by (auto simp add: tick_duty_fwd_def Let_def)

lemma unat_tick_duty_fwd:
  "unat (tick_duty_fwd s)
     = min ((unat (scale s) * nat \<bar>sine_sample (next_phase (phase_idx s))\<bar> + 64) div 128)
           (unat (pwm_top s))"
proof -
  have "\<bar>sine_sample (next_phase (phase_idx s))\<bar> \<le> 127"
    using sample_magnitude [of "phase_idx s"] by auto
  from unat_duty_fwd_of [OF this, of "scale s"] show ?thesis
    by (auto simp add: tick_duty_fwd_def Let_def word_le_nat_alt min_def)
qed

lemma sine_tick_programs:
  assumes "wave_mode s \<noteq> 0" and "scale s \<noteq> 0"
  shows "\<exists>t. TMR1_tick s = set_pwm10 (pwm_top s - tick_duty_fwd s) t"
  using assms
  by (auto simp add: TMR1_tick_def tick_duty_fwd_def Let_def pwm_top_def coast_both_def
      route_halfcycle_def)

lemma sine_tick_duty_register_value:
  assumes "wave_mode s \<noteq> 0" and "scale s \<noteq> 0"
  shows "duty_register (TMR1_tick s) = pwm_top s - tick_duty_fwd s"
proof -
  have "pwm_top s - tick_duty_fwd s \<le> pwm_top s"
    using tick_duty_fwd_le [of s] by (simp add: word_sub_le)
  then have "unat (pwm_top s - tick_duty_fwd s) \<le> 1023"
    using pwm_top_bounds(2) [of s] by (simp add: word_le_nat_alt)
  then have v: "pwm_top s - tick_duty_fwd s < 1024"
    by (simp add: word_less_nat_alt)
  from sine_tick_programs [OF assms] obtain t where
    "TMR1_tick s = set_pwm10 (pwm_top s - tick_duty_fwd s) t" ..
  then show ?thesis by (simp add: duty_register_set_pwm10 [OF v])
qed

lemma wire_tick_duty_fwd:
  assumes "scale s \<noteq> 0" and "wire_state s"
  shows "tick_duty_fwd s < MIN_DRIVE_TKS \<longleftrightarrow> sine_sample (next_phase (phase_idx s)) = 0"
    and "tick_duty_fwd s < MIN_DRIVE_TKS \<longrightarrow> tick_duty_fwd s = 0"
proof -
  let ?m = "nat \<bar>sine_sample (next_phase (phase_idx s))\<bar>"
  let ?f = "(unat (scale s) * ?m + 64) div 128"
  from assms have sc: "24 \<le> unat (scale s)"
    using wire_scale_bounds [of "scale s"] by (simp add: wire_state_def)
  have u: "unat (tick_duty_fwd s) = min ?f (unat (pwm_top s))"
    by (rule unat_tick_duty_fwd)
  have lt: "tick_duty_fwd s < MIN_DRIVE_TKS \<longleftrightarrow> unat (tick_duty_fwd s) < 2"
    by (simp add: MIN_DRIVE_TKS_def word_less_nat_alt)
  show "tick_duty_fwd s < MIN_DRIVE_TKS \<longleftrightarrow> sine_sample (next_phase (phase_idx s)) = 0"
  proof (cases "sine_sample (next_phase (phase_idx s)) = 0")
    case True
    then have "?f = 0" by simp
    with u True show ?thesis by (simp add: lt)
  next
    case False
    with sample_magnitude [of "phase_idx s"] have "12 \<le> ?m" by auto
    with sc have "24 * 12 \<le> unat (scale s) * ?m" by (rule mult_le_mono)
    then have "352 \<le> unat (scale s) * ?m + 64" by simp
    then have "352 div 128 \<le> ?f" by (rule div_le_mono)
    then have "2 \<le> ?f" by simp
    with u pwm_top_bounds(1) [of s] have "2 \<le> unat (tick_duty_fwd s)" by simp
    with False show ?thesis by (simp add: lt)
  qed
  then show "tick_duty_fwd s < MIN_DRIVE_TKS \<longrightarrow> tick_duty_fwd s = 0"
    using u by (auto simp add: unat_eq_0 [symmetric] simp del: unat_eq_0)
qed

lemma wire_state_idle: "wire_state idle_node"
  by (simp add: wire_state_def idle_node_def wire_scales_values)

lemma UART_processing_duty5:
  assumes "UART_processing s = Some s'" and "duty5_raw s \<le> 31"
  shows "duty5_raw s' \<le> 31"
proof -
  have m: "buffer s AND 0x1F \<le> 31" by (rule word_and_le1)
  from assms m show ?thesis
    by (auto simp add: UART_processing_def UART_Write_def Let_def start_sine_frame
        start_square_frame UART_stop_fields split: option.splits if_splits)
qed

lemma UART_processing_wire_state:
  assumes "UART_processing s = Some s'" and "wire_state s"
  shows "wire_state s'"
proof -
  from assms have d: "duty5_raw s \<le> 31" and sc: "scale s \<in> set wire_scales"
    by (simp_all add: wire_state_def)
  from UART_processing_scale [OF assms(1)] sc wire_scale_member [OF d]
  have "scale s' \<in> set wire_scales" by auto
  with UART_processing_duty5 [OF assms(1) d] show ?thesis
    by (simp add: wire_state_def)
qed

lemma hardware_wire_state:
  "wire_state (rx_byte b s) = wire_state s"
  "wire_state (timer1_overflow s) = wire_state s"
  "wire_state (timer2_overflow s) = wire_state s"
  by (simp_all add: wire_state_def rx_byte_def timer1_overflow_def timer2_overflow_def)

lemma ISR_wire_state:
  assumes "ISR s = Some s'" and "wire_state s"
  shows "wire_state s'"
proof (cases "regs s RCIF \<noteq> 0")
  case True
  show ?thesis
  proof (cases "regs s FERR \<noteq> 0")
    case f: True
    with True assms show ?thesis
      by (auto simp add: ISR_def RX_branch_def Let_def wire_state_def split: if_splits)
  next
    case f: False
    let ?s1 = "if regs s OERR \<noteq> 0 then run [wr CREN 0, wr CREN 1] s else s"
    let ?u = "(wr RCIF 0 ?s1)\<lparr>buffer := regs ?s1 RC1REG\<rparr>"
    from True f assms have u: "UART_processing ?u = Some s'"
      by (auto simp add: ISR_def RX_branch_def Let_def split: if_splits)
    from assms(2) have "wire_state ?u" by (simp add: wire_state_def)
    from UART_processing_wire_state [OF u this] show ?thesis .
  qed
next
  case False
  with assms show ?thesis
    by (auto simp add: ISR_def TMR2_tick_def TMR1_tick_def Let_def wire_state_def
        coast_both_def set_pwm10_def route_halfcycle_def split: if_splits)
qed

lemma main_square_step_wire_state:
  "wire_state (main_square_step s) = wire_state s"
  by (simp add: main_square_step_def square_processing_def wire_state_def Let_def set_pwm10_def)

text \<open>
  C8. On a sine tick with a non-zero scale the duty register receives
  \<open>top - duty_fwd\<close>, where \<open>duty_fwd\<close> is \<open>scale * |sample|\<close> divided by 128 with
  rounding (the shift by 7 of the handler) and clamped to \<open>top\<close>, except that a
  \<open>duty_fwd\<close> below \<open>MIN_DRIVE_TKS\<close> leaves the register at \<open>top\<close>. The handler has
  no test for the floor: with the scales a command can set (at least 24) and the samples
  of the table (0 or at least 12) a forward duty below the floor is 0, at the zero
  crossings, and there \<open>top - duty_fwd\<close> is \<open>top\<close>.
\<close>

theorem sine_tick_duty_with_floor:
  assumes "wave_mode s \<noteq> 0" and "scale s \<noteq> 0" and "wire_state s"
  shows "duty_register (TMR1_tick s)
           = (if tick_duty_fwd s < MIN_DRIVE_TKS then pwm_top s
              else pwm_top s - tick_duty_fwd s)
       \<and> filter duty_write (new_events s (TMR1_tick s))
           = [(CCPR1H, ucast (drop_bit 2 (duty_register (TMR1_tick s)))),
              (CCPR1L, ucast (push_bit 6 (duty_register (TMR1_tick s) AND 3)))]
       \<and> unat (tick_duty_fwd s)
           = min ((unat (scale s) * nat \<bar>sine_sample (next_phase (phase_idx s))\<bar> + 64) div 128)
                 (unat (pwm_top s))
       \<and> (tick_duty_fwd s < MIN_DRIVE_TKS \<longleftrightarrow> sine_sample (next_phase (phase_idx s)) = 0)"
proof -
  have r: "duty_register (TMR1_tick s) = pwm_top s - tick_duty_fwd s"
    by (rule sine_tick_duty_register_value [OF assms(1,2)])
  have a: "duty_register (TMR1_tick s)
           = (if tick_duty_fwd s < MIN_DRIVE_TKS then pwm_top s
              else pwm_top s - tick_duty_fwd s)"
    using wire_tick_duty_fwd(2) [OF assms(2,3)] by (auto simp add: r)
  have b: "filter duty_write (new_events s (TMR1_tick s))
           = [(CCPR1H, ucast (drop_bit 2 (duty_register (TMR1_tick s)))),
              (CCPR1L, ucast (push_bit 6 (duty_register (TMR1_tick s) AND 3)))]"
    unfolding r sine_tick_duty_writes [OF assms(1,2)]
    by (simp add: tick_duty_fwd_def Let_def)
  from a b unat_tick_duty_fwd [of s] wire_tick_duty_fwd(1) [OF assms(2,3)]
  show ?thesis by blast
qed

lemma floor_examples:
  "wave_mode sine_code1_armed \<noteq> 0" "scale sine_code1_armed \<noteq> 0" "wire_state sine_code1_armed"
  "tick_duty_fwd sine_code1_armed = 2" "pwm_top sine_code1_armed = 799"
  "wave_mode sine_before_zero \<noteq> 0" "scale sine_before_zero \<noteq> 0" "wire_state sine_before_zero"
  "tick_duty_fwd sine_before_zero = 0" "pwm_top sine_before_zero = 799"
  by (simp_all add: sine_code1_armed_def sine_before_zero_def sine_armed_def idle_node_def
      wire_state_def wire_scales_values tick_duty_fwd_def duty_fwd_of_def pwm_top_def
      next_phase_def SINE_LEN_def sine_sample_def SINE64_8_def Let_def word_le_nat_alt)

theorem sine_tick_duty_with_floor_witness:
  "wave_mode sine_code1_armed \<noteq> 0 \<and> scale sine_code1_armed \<noteq> 0
   \<and> wire_state sine_code1_armed
   \<and> \<not> tick_duty_fwd sine_code1_armed < MIN_DRIVE_TKS
   \<and> duty_register (TMR1_tick sine_code1_armed) = 797
   \<and> wave_mode sine_before_zero \<noteq> 0 \<and> scale sine_before_zero \<noteq> 0
   \<and> wire_state sine_before_zero
   \<and> tick_duty_fwd sine_before_zero < MIN_DRIVE_TKS
   \<and> duty_register (TMR1_tick sine_before_zero) = 799"
proof -
  note E = floor_examples
  from sine_tick_duty_with_floor [OF E(1) E(2) E(3)]
       sine_tick_duty_with_floor [OF E(6) E(7) E(8)] E
  show ?thesis by (simp add: MIN_DRIVE_TKS_def)
qed

lemma isr_run_wire_state:
  assumes "isr_run hws s = Some s'" and "wire_state s"
    and "\<forall>hw \<in> set hws. \<forall>t. wire_state (hw t) = wire_state t"
  shows "wire_state s'"
  using assms
proof (induction hws arbitrary: s)
  case Nil
  then show ?case by simp
next
  case (Cons hw hws)
  from Cons.prems(1) obtain t where i: "ISR (hw s) = Some t" and r: "isr_run hws t = Some s'"
    by (auto split: option.splits)
  from Cons.prems(2,3) have "wire_state (hw s)" by simp
  from ISR_wire_state [OF i this] have "wire_state t" .
  from Cons.IH [OF r this] Cons.prems(3) show ?case by simp
qed

end
